theory Spec2Isabelle
  imports Complex_Main "HOL-Library.Word" "HOL-Library.Multiset"
begin

section \<open>The view layer of the MML converter (src/src/App.svelte)\<close>

text \<open>
  The component script of \<^verbatim>\<open>App.svelte\<close> is embedded function by function.
  A JavaScript string is its sequence of UTF-16 code units, which is what
  \<^verbatim>\<open>===\<close>, \<^verbatim>\<open>startsWith\<close>, \<^verbatim>\<open>endsWith\<close> and a regular expression without the
  \<^verbatim>\<open>u\<close> flag observe. Literals are written as code unit lists; the literal they stand
  for is given beside each one.
\<close>

type_synonym jsstring = "16 word list"

subsection \<open>Data model (lines 6-20)\<close>

text \<open>
  \<^verbatim>\<open>note_count\<close>, \<^verbatim>\<open>char_count\<close>, \<^verbatim>\<open>bpm\<close> and \<^verbatim>\<open>total_notes\<close> are integer-valued
  Numbers. \<^verbatim>\<open>duration\<close> is a finite Number (the result record arrives as JSON, which has
  neither NaN nor infinities); a finite double is a rational, and it is modelled by its
  exact value.
\<close>

record VoiceResult =
  name :: jsstring
  content :: jsstring
  char_count :: int
  note_count :: int
  duration :: rat

record ConversionResult =
  success :: bool
  voices :: "VoiceResult list"
  error :: "jsstring option"
  bpm :: int
  total_notes :: int

subsection \<open>String primitives\<close>

definition startsWith :: "jsstring \<Rightarrow> jsstring \<Rightarrow> bool" where
  "startsWith s p = (take (length p) s = p)"

definition endsWith :: "jsstring \<Rightarrow> jsstring \<Rightarrow> bool" where
  "endsWith s p = (length p \<le> length s \<and> drop (length s - length p) s = p)"

text \<open>The melody literal of lines 27 and 28: the three Hangul syllables U+BA5C U+B85C
  U+B514.\<close>

definition str_melody :: jsstring where
  "str_melody = [0xBA5C, 0xB85C, 0xB514]"

text \<open>The literals \<^verbatim>\<open>"notes"\<close> and \<^verbatim>\<open>"instrument"\<close>.\<close>

definition str_notes :: jsstring where
  "str_notes = [0x6E, 0x6F, 0x74, 0x65, 0x73]"

definition str_instrument :: jsstring where
  "str_instrument = [0x69, 0x6E, 0x73, 0x74, 0x72, 0x75, 0x6D, 0x65, 0x6E, 0x74]"

subsection \<open>The regular expression of line 35\<close>

text \<open>
  \<^verbatim>\<open>name.match(/\(([^)]+)\)/)\<close> looks for the leftmost position holding an opening
  parenthesis, then one or more code units other than a closing parenthesis, then a
  closing parenthesis. The quantifier is greedy, and giving code units back cannot help
  (what follows a shorter run is no closing parenthesis), so at each opening parenthesis
  the match succeeds exactly when the longest run is non-empty and a closing parenthesis
  follows it. The result is capture group 1, or \<open>None\<close> for \<^verbatim>\<open>null\<close>.
\<close>

definition lparen :: "16 word" where "lparen = 0x28"
definition rparen :: "16 word" where "rparen = 0x29"

fun match_group :: "jsstring \<Rightarrow> jsstring option" where
  "match_group [] = None"
| "match_group (c # cs) =
     (if c = lparen \<and> takeWhile (\<lambda>u. u \<noteq> rparen) cs \<noteq> [] \<and> dropWhile (\<lambda>u. u \<noteq> rparen) cs \<noteq> []
      then Some (takeWhile (\<lambda>u. u \<noteq> rparen) cs)
      else match_group cs)"

text \<open>\<^verbatim>\<open>a.name.match(...)?.[1] || ""\<close>\<close>

definition instrumentOf :: "VoiceResult \<Rightarrow> jsstring" where
  "instrumentOf v = (case match_group (name v) of None \<Rightarrow> [] | Some g \<Rightarrow> (if g = [] then [] else g))"

subsection \<open>Array.prototype.sort\<close>

text \<open>
  A comparator returns a Number; only its sign is used. \<^verbatim>\<open>Array.prototype.sort\<close> is
  stable, and for a consistent comparator its result is fixed by the language standard: the
  stable arrangement in comparator order. Insertion from the right computes that
  arrangement. For a comparator that is not consistent the standard leaves the order to
  the implementation; the result is a rearrangement of the elements in every case.
\<close>

fun sort_insert :: "('a \<Rightarrow> 'a \<Rightarrow> int) \<Rightarrow> 'a \<Rightarrow> 'a list \<Rightarrow> 'a list" where
  "sort_insert cmp x [] = [x]"
| "sort_insert cmp x (y # ys) =
     (if cmp x y \<le> 0 then x # y # ys else y # sort_insert cmp x ys)"

fun Array_sort :: "('a \<Rightarrow> 'a \<Rightarrow> int) \<Rightarrow> 'a list \<Rightarrow> 'a list" where
  "Array_sort cmp [] = []"
| "Array_sort cmp (x # xs) = sort_insert cmp x (Array_sort cmp xs)"

subsection \<open>getSortedVoices (lines 23-46)\<close>

text \<open>
  The predicate of the first \<^verbatim>\<open>filter\<close>; the second \<^verbatim>\<open>filter\<close> uses
  \<^verbatim>\<open>v.name !== M && !v.name.startsWith(M)\<close> for the same literal \<open>M\<close>, written out below as the source
  has it.
\<close>

definition isMelody :: "VoiceResult \<Rightarrow> bool" where
  "isMelody v = (name v = str_melody \<or> startsWith (name v) str_melody)"

definition isOther :: "VoiceResult \<Rightarrow> bool" where
  "isOther v = (name v \<noteq> str_melody \<and> \<not> startsWith (name v) str_melody)"

text \<open>\<^verbatim>\<open>(a, b) => b.note_count - a.note_count\<close>. The difference of two Numbers has the
  sign of the difference of their values.\<close>

definition cmpNotes :: "VoiceResult \<Rightarrow> VoiceResult \<Rightarrow> int" where
  "cmpNotes a b = note_count b - note_count a"

text \<open>
  The comparator of lines 34-42. \<^verbatim>\<open>String.prototype.localeCompare\<close> belongs to the
  host's internationalisation library; it is the parameter \<open>lc\<close>.
\<close>

definition cmpInstrument :: "(jsstring \<Rightarrow> jsstring \<Rightarrow> int) \<Rightarrow> VoiceResult \<Rightarrow> VoiceResult \<Rightarrow> int" where
  "cmpInstrument lc a b =
     (let instA = instrumentOf a; instB = instrumentOf b
      in if instA = instB then note_count b - note_count a else lc instA instB)"

text \<open>
  The argument \<^verbatim>\<open>voices\<close> (here \<open>voicesArg\<close>) is \<open>None\<close> when the caller passes \<^verbatim>\<open>null\<close> or
  \<^verbatim>\<open>undefined\<close> (the test \<^verbatim>\<open>!voices\<close>); \<open>sortKey\<close> is the parameter
  \<^verbatim>\<open>sortBy\<close>. This is the function on values; the version on a store of arrays, with
  the in-place \<^verbatim>\<open>sort\<close>, follows.
\<close>

definition getSortedVoices ::
  "(jsstring \<Rightarrow> jsstring \<Rightarrow> int) \<Rightarrow> VoiceResult list option \<Rightarrow> jsstring \<Rightarrow> VoiceResult list" where
  "getSortedVoices lc voicesArg sortKey =
     (case voicesArg of
        None \<Rightarrow> []
      | Some vs \<Rightarrow>
          if length vs = 0 then []
          else
            let melody = filter isMelody vs;
                others = filter isOther vs;
                others' =
                  (if sortKey = str_notes then Array_sort cmpNotes others
                   else if sortKey = str_instrument then Array_sort (cmpInstrument lc) others
                   else others)
            in melody @ others')"

subsection \<open>getSortedVoices on a store of arrays\<close>

text \<open>
  Arrays are mutable and passed by reference: \<^verbatim>\<open>filter\<close> and the spread expression
  \<^verbatim>\<open>[...melody, ...others]\<close> build new arrays, \<^verbatim>\<open>sort\<close> rearranges its receiver in
  place. The store maps a reference to the elements of the array it denotes;
  \<open>next_ref\<close> is the next unused reference.
\<close>

record store =
  cells :: "nat \<Rightarrow> VoiceResult list option"
  next_ref :: nat

definition wf_store :: "store \<Rightarrow> bool" where
  "wf_store st = (\<forall>a. cells st a \<noteq> None \<longrightarrow> a < next_ref st)"

definition alloc :: "VoiceResult list \<Rightarrow> store \<Rightarrow> nat \<times> store" where
  "alloc xs st =
     (next_ref st, st\<lparr>cells := (cells st)(next_ref st \<mapsto> xs), next_ref := Suc (next_ref st)\<rparr>)"

definition deref :: "store \<Rightarrow> nat \<Rightarrow> VoiceResult list" where
  "deref st a = (case cells st a of None \<Rightarrow> [] | Some xs \<Rightarrow> xs)"

definition Array_filter :: "(VoiceResult \<Rightarrow> bool) \<Rightarrow> nat \<Rightarrow> store \<Rightarrow> nat \<times> store" where
  "Array_filter p a st = alloc (filter p (deref st a)) st"

definition Array_sort_in_place ::
  "(VoiceResult \<Rightarrow> VoiceResult \<Rightarrow> int) \<Rightarrow> nat \<Rightarrow> store \<Rightarrow> store" where
  "Array_sort_in_place cmp a st = st\<lparr>cells := (cells st)(a \<mapsto> Array_sort cmp (deref st a))\<rparr>"

definition Array_spread2 :: "nat \<Rightarrow> nat \<Rightarrow> store \<Rightarrow> nat \<times> store" where
  "Array_spread2 a b st = alloc (deref st a @ deref st b) st"

text \<open>
  The argument is a reference or \<open>None\<close> (\<^verbatim>\<open>null\<close>, \<^verbatim>\<open>undefined\<close>); a reference
  that denotes no array is treated like the missing argument. The result is the
  reference returned and the store after the call.
\<close>

definition getSortedVoices_st ::
  "(jsstring \<Rightarrow> jsstring \<Rightarrow> int) \<Rightarrow> nat option \<Rightarrow> jsstring \<Rightarrow> store \<Rightarrow> nat \<times> store" where
  "getSortedVoices_st lc voicesRef sortKey st =
     (case voicesRef of
        None \<Rightarrow> alloc [] st
      | Some a \<Rightarrow>
          (case cells st a of
             None \<Rightarrow> alloc [] st
           | Some vs \<Rightarrow>
               if length vs = 0 then alloc [] st
               else
                 let (melody, st1) = Array_filter isMelody a st;
                     (others, st2) = Array_filter isOther a st1;
                     st3 =
                       (if sortKey = str_notes then Array_sort_in_place cmpNotes others st2
                        else if sortKey = str_instrument
                             then Array_sort_in_place (cmpInstrument lc) others st2
                        else st2)
                 in Array_spread2 melody others st3))"

subsection \<open>Component state (lines 48-56)\<close>

text \<open>
  \<^verbatim>\<open>charLimit\<close> is bound to a numeric input, which gives a Number, or
  \<^verbatim>\<open>null\<close>/\<^verbatim>\<open>undefined\<close> when the input is empty (\<open>Nullish\<close>). \<open>Integer i\<close> is the
  Number whose value is the integer \<open>i\<close>; it is a Number only when \<open>i\<close> is a double
  (\<open>isDoubleInt\<close> below). The infinities and NaN are what \<^verbatim>\<open>parseInt\<close> can return
  besides. Numbers with a fractional part are outside the model.
\<close>

datatype number = NaN | Integer int | PosInfinity | NegInfinity | Nullish

record State =
  isDragging :: bool
  isConverting :: bool
  result :: "ConversionResult option"
  fileName :: jsstring
  conversionMode :: jsstring
  charLimit :: number
  sortBy :: jsstring
  errorMessage :: jsstring
  copiedIndex :: int

subsection \<open>Number to string and back\<close>

text \<open>The decimal digits of an integer \<open>n \<ge> 0\<close>, most significant first.\<close>

definition digitChar :: "int \<Rightarrow> 16 word" where
  "digitChar d = of_int (48 + d)"

function digitsOf :: "int \<Rightarrow> jsstring" where
  "digitsOf n = (if n < 10 then [digitChar n] else digitsOf (n div 10) @ [digitChar (n mod 10)])"
  by pat_completeness auto
termination
  by (relation "measure nat") auto

declare digitsOf.simps [simp del]

definition stripTrailingZeros :: "jsstring \<Rightarrow> jsstring" where
  "stripTrailingZeros ds = rev (dropWhile (\<lambda>u. u = 0x30) (rev ds))"

text \<open>
  Doubles. A Number is an IEEE 754 double: 53 significant bits, values below \<open>2^1024\<close>
  in magnitude. \<open>roundToDouble n\<close> is the double nearest to the integer \<open>n \<ge> 0\<close>, the
  one with the even significand of two equally near (overflow is tested by the callers);
  \<open>bitLength n\<close> is the number of bits of \<open>n\<close>.
\<close>

function bitLength :: "int \<Rightarrow> nat" where
  "bitLength n = (if n \<le> 0 then 0 else Suc (bitLength (n div 2)))"
  by pat_completeness auto
termination
  by (relation "measure nat") auto

declare bitLength.simps [simp del]

definition roundToDouble :: "int \<Rightarrow> int" where
  "roundToDouble n =
     (if n < 2 ^ 53 then n
      else
        let e = bitLength n - 53;
            q = n div 2 ^ e;
            r = n mod 2 ^ e;
            h = 2 ^ (e - 1)
        in if r > h \<or> (r = h \<and> odd q) then (q + 1) * 2 ^ e else q * 2 ^ e)"

definition isDoubleInt :: "int \<Rightarrow> bool" where
  "isDoubleInt i = (roundToDouble \<bar>i\<bar> = \<bar>i\<bar> \<and> \<bar>i\<bar> < 2 ^ 1024)"

text \<open>
  \<^verbatim>\<open>Number.prototype.toString()\<close> prints the shortest decimal digit string that reads
  back as the same double, followed by zeros up to the magnitude of the value.
  \<open>shortestValue x j\<close>, for a double \<open>x \<ge> 0\<close>, looks for an integer that rounds to
  \<open>x\<close> among those with the last \<open>j\<close> decimal places zero (the two nearest to
  \<open>x\<close>: the nearer of them if both round to \<open>x\<close>, the even one if they are equally
  near), then with \<open>j - 1\<close>, and so on down to \<open>x\<close> itself. \<open>shortestDecimal\<close>
  starts the search with a single significant digit.
\<close>

fun shortestValue :: "int \<Rightarrow> nat \<Rightarrow> int" where
  "shortestValue x 0 = x"
| "shortestValue x (Suc j) =
     (let p = 10 ^ Suc j;
          lo = (x div p) * p;
          hi = lo + p;
          okLo = (roundToDouble lo = x);
          okHi = (roundToDouble hi = x)
      in if okLo \<and> okHi
         then (if x - lo < hi - x then lo
               else if hi - x < x - lo then hi
               else if even (x div p) then lo else hi)
         else if okLo then lo
         else if okHi then hi
         else shortestValue x j)"

definition shortestDecimal :: "int \<Rightarrow> int" where
  "shortestDecimal x = shortestValue x (length (digitsOf x) - 1)"

text \<open>
  The string for a Number whose value is the integer \<open>x \<ge> 0\<close>. With \<open>n\<close> the number
  of digits of the value printed: up to \<open>n = 21\<close> all its digits; beyond, exponent
  notation: the first digit, the further significant digits after a point if there are
  any, \<^verbatim>\<open>e+\<close> and \<open>n - 1\<close>.
\<close>

definition toString_nonneg :: "int \<Rightarrow> jsstring" where
  "toString_nonneg x =
     (let ds = digitsOf (shortestDecimal x);
          n = length ds
      in if n \<le> 21 then ds
         else
           let sig = stripTrailingZeros ds;
               mantissa = (if length sig = 1 then sig else hd sig # 0x2E # tl sig)
           in mantissa @ [0x65, 0x2B] @ digitsOf (int n - 1))"

text \<open>
  \<^verbatim>\<open>x.toString()\<close>. The literals are \<^verbatim>\<open>"NaN"\<close>, \<^verbatim>\<open>"Infinity"\<close> and
  \<^verbatim>\<open>"-Infinity"\<close>; a negative value prints \<^verbatim>\<open>-\<close> and its magnitude. On
  \<^verbatim>\<open>null\<close> and \<^verbatim>\<open>undefined\<close> the call throws a TypeError (\<open>None\<close>).
\<close>

definition Number_toString :: "number \<Rightarrow> jsstring option" where
  "Number_toString x =
     (case x of
        NaN \<Rightarrow> Some [0x4E, 0x61, 0x4E]
      | Integer i \<Rightarrow> Some (if i < 0 then 0x2D # toString_nonneg (- i) else toString_nonneg i)
      | PosInfinity \<Rightarrow> Some [0x49, 0x6E, 0x66, 0x69, 0x6E, 0x69, 0x74, 0x79]
      | NegInfinity \<Rightarrow> Some [0x2D, 0x49, 0x6E, 0x66, 0x69, 0x6E, 0x69, 0x74, 0x79]
      | Nullish \<Rightarrow> None)"

text \<open>
  \<^verbatim>\<open>parseInt(s, 10)\<close>: leading white space is skipped, one sign is read, then the
  longest run of decimal digits; no digit gives NaN. The integer read is rounded to a
  double, and to an infinity from \<open>2^1024\<close> on. (An implementation may take digits
  after the 20th significant one as zeros; the model reads them all.)
\<close>

definition isWhiteSpace :: "16 word \<Rightarrow> bool" where
  "isWhiteSpace u =
     (u \<in> set [0x09, 0x0A, 0x0B, 0x0C, 0x0D, 0x20, 0xA0, 0x1680, 0x2000, 0x2001, 0x2002,
               0x2003, 0x2004, 0x2005, 0x2006, 0x2007, 0x2008, 0x2009, 0x200A, 0x2028,
               0x2029, 0x202F, 0x205F, 0x3000, 0xFEFF])"

definition isDigit :: "16 word \<Rightarrow> bool" where
  "isDigit u = (0x30 \<le> u \<and> u \<le> 0x39)"

definition digitsValue :: "jsstring \<Rightarrow> int" where
  "digitsValue ds = foldl (\<lambda>acc u. 10 * acc + (uint u - 48)) 0 ds"

definition parseInt10 :: "jsstring \<Rightarrow> number" where
  "parseInt10 input =
     (let S = dropWhile isWhiteSpace input;
          sign = (if S \<noteq> [] \<and> hd S = 0x2D then - 1 else 1);
          S' = (if S \<noteq> [] \<and> (hd S = 0x2B \<or> hd S = 0x2D) then tl S else S);
          Z = takeWhile isDigit S'
      in if Z = [] then NaN
         else
           let m = roundToDouble (digitsValue Z)
           in if m \<ge> 2 ^ 1024 then (if sign < 0 then NegInfinity else PosInfinity)
              else Integer (sign * m))"

subsection \<open>Settings persistence (lines 58-76)\<close>

text \<open>
  \<^verbatim>\<open>localStorage\<close> maps keys to strings; \<^verbatim>\<open>getItem\<close> gives \<^verbatim>\<open>null\<close> (\<open>None\<close>)
  for a key that is not there. The keys are the literals \<^verbatim>\<open>'conversionMode'\<close>,
  \<^verbatim>\<open>'charLimit'\<close> and \<^verbatim>\<open>'sortBy'\<close>. \<open>hasWindow\<close> is the test
  \<^verbatim>\<open>typeof window !== 'undefined'\<close>.
\<close>

type_synonym Storage = "jsstring \<Rightarrow> jsstring option"

definition key_conversionMode :: jsstring where
  "key_conversionMode =
     [0x63, 0x6F, 0x6E, 0x76, 0x65, 0x72, 0x73, 0x69, 0x6F, 0x6E, 0x4D, 0x6F, 0x64, 0x65]"

definition key_charLimit :: jsstring where
  "key_charLimit = [0x63, 0x68, 0x61, 0x72, 0x4C, 0x69, 0x6D, 0x69, 0x74]"

definition key_sortBy :: jsstring where
  "key_sortBy = [0x73, 0x6F, 0x72, 0x74, 0x42, 0x79]"

text \<open>The first effect. A string is truthy when it is not empty.\<close>

definition loadSettings :: "bool \<Rightarrow> Storage \<Rightarrow> State \<Rightarrow> State" where
  "loadSettings hasWindow ls s =
     (if hasWindow then
        let savedMode = ls key_conversionMode;
            savedLimit = ls key_charLimit;
            savedSortBy = ls key_sortBy;
            s1 = (case savedMode of
                    None \<Rightarrow> s
                  | Some m \<Rightarrow> if m \<noteq> [] then s\<lparr>conversionMode := m\<rparr> else s);
            s2 = (case savedLimit of
                    None \<Rightarrow> s1
                  | Some l \<Rightarrow> if l \<noteq> [] then s1\<lparr>charLimit := parseInt10 l\<rparr> else s1);
            s3 = (case savedSortBy of
                    None \<Rightarrow> s2
                  | Some b \<Rightarrow> if b \<noteq> [] then s2\<lparr>sortBy := b\<rparr> else s2)
        in s3
      else s)"

text \<open>
  The second effect; the result is the storage after it. The three \<^verbatim>\<open>setItem\<close>
  calls run in order; when \<^verbatim>\<open>charLimit.toString()\<close> throws, the effect ends there,
  with the first key written.
\<close>

definition saveSettings :: "bool \<Rightarrow> State \<Rightarrow> Storage \<Rightarrow> Storage" where
  "saveSettings hasWindow s ls =
     (if hasWindow then
        let ls1 = ls(key_conversionMode \<mapsto> conversionMode s)
        in case Number_toString (charLimit s) of
             None \<Rightarrow> ls1
           | Some limit \<Rightarrow> (ls1(key_charLimit \<mapsto> limit))(key_sortBy \<mapsto> sortBy s)
      else ls)"

subsection \<open>convertFile (lines 140-168)\<close>

text \<open>
  The request handed to \<^verbatim>\<open>invoke\<close>: the command name \<^verbatim>\<open>"convert_midi"\<close>, the bytes
  of the file and the options object, whose fields are those of the object literal of
  lines 151-155.
\<close>

record Options =
  mode :: jsstring
  char_limit :: number
  compress_mode :: bool

record Request =
  command :: jsstring
  midiData :: "8 word list"
  options :: Options

definition str_convert_midi :: jsstring where
  "str_convert_midi = [0x63, 0x6F, 0x6E, 0x76, 0x65, 0x72, 0x74, 0x5F, 0x6D, 0x69, 0x64, 0x69]"

text \<open>The literal of line 161, the message shown when the engine gives no reason.\<close>

definition str_conversion_failed :: jsstring where
  "str_conversion_failed =
     [0xBCC0, 0xD658, 0x20, 0xC911, 0x20, 0xC624, 0xB958, 0xAC00, 0x20, 0xBC1C, 0xC0DD,
      0xD588, 0xC2B5, 0xB2C8, 0xB2E4, 0x2E]"

text \<open>The prefix of the template literal of line 164; it ends in a colon and a space.\<close>

definition str_conversion_error :: jsstring where
  "str_conversion_error = [0xBCC0, 0xD658, 0x20, 0xC624, 0xB958, 0x3A, 0x20]"

text \<open>
  The three assignments before the first \<^verbatim>\<open>await\<close>: the state on display while the
  file is read and while the engine runs.
\<close>

definition convertFile_pending :: "State \<Rightarrow> State" where
  "convertFile_pending s = s\<lparr>isConverting := True, errorMessage := [], result := None\<rparr>"

text \<open>
  The arguments of \<^verbatim>\<open>invoke\<close> (lines 149-156), built from the state at the time of
  the call and the bytes read.
\<close>

definition convertRequest :: "State \<Rightarrow> 8 word list \<Rightarrow> Request" where
  "convertRequest s bytes =
     \<lparr>command = str_convert_midi, midiData = bytes,
      options = \<lparr>mode = conversionMode s, char_limit = charLimit s, compress_mode = False\<rparr>\<rparr>"

text \<open>
  The file system and the engine are parameters: \<open>readFile\<close> stands for the import
  of the file system plug-in and its \<^verbatim>\<open>readFile\<close>, \<open>invoke\<close> for the call into the
  engine. Either gives a value or throws; \<open>Inl e\<close> is a thrown error whose
  \<^verbatim>\<open>toString()\<close> is \<open>e\<close>. The result is the state after the \<^verbatim>\<open>finally\<close> block and
  the requests sent to the engine. One run is modelled on its own: no other handler writes
  the state between its steps.
\<close>

definition convertFile ::
  "(jsstring \<Rightarrow> jsstring + 8 word list) \<Rightarrow> (Request \<Rightarrow> jsstring + ConversionResult)
     \<Rightarrow> jsstring \<Rightarrow> State \<Rightarrow> State \<times> Request list" where
  "convertFile readFile invoke filePath s =
     (let s1 = convertFile_pending s in
      case readFile filePath of
        Inl e \<Rightarrow> (s1\<lparr>errorMessage := str_conversion_error @ e, isConverting := False\<rparr>, [])
      | Inr bytes \<Rightarrow>
          let req = convertRequest s1 bytes
          in case invoke req of
               Inl e \<Rightarrow>
                 (s1\<lparr>errorMessage := str_conversion_error @ e, isConverting := False\<rparr>, [req])
             | Inr conversionResult \<Rightarrow>
                 if success conversionResult
                 then (s1\<lparr>result := Some conversionResult, isConverting := False\<rparr>, [req])
                 else (s1\<lparr>errorMessage :=
                             (case error conversionResult of
                                None \<Rightarrow> str_conversion_failed
                              | Some e \<Rightarrow> if e \<noteq> [] then e else str_conversion_failed),
                           isConverting := False\<rparr>, [req]))"

subsection \<open>handleFileDrop (lines 122-138)\<close>

text \<open>
  \<^verbatim>\<open>toLowerCase\<close>, on Basic Latin: the letters A to Z are lowered and every other code
  unit is kept. The full mapping also lowers letters outside Basic Latin, none of them to
  a string that ends in \<^verbatim>\<open>.\<close>, \<^verbatim>\<open>m\<close>, \<^verbatim>\<open>i\<close> or \<^verbatim>\<open>d\<close>, so the two tests of lines
  129-130 cannot tell the difference.
\<close>

definition lowerUnit :: "16 word \<Rightarrow> 16 word" where
  "lowerUnit u = (if 0x41 \<le> u \<and> u \<le> 0x5A then u + 0x20 else u)"

definition toLowerCase :: "jsstring \<Rightarrow> jsstring" where
  "toLowerCase s = map lowerUnit s"

text \<open>The literals \<^verbatim>\<open>".mid"\<close> and \<^verbatim>\<open>".midi"\<close>.\<close>

definition str_mid :: jsstring where
  "str_mid = [0x2E, 0x6D, 0x69, 0x64]"

definition str_midi :: jsstring where
  "str_midi = [0x2E, 0x6D, 0x69, 0x64, 0x69]"

text \<open>The literal of line 132, the message for a file that is not a MIDI file.\<close>

definition str_only_midi :: jsstring where
  "str_only_midi =
     [0x4D, 0x49, 0x44, 0x49, 0x20, 0xD30C, 0xC77C, 0x28, 0x2E, 0x6D, 0x69, 0x64, 0x29,
      0xB9CC, 0x20, 0xC9C0, 0xC6D0, 0xB429, 0xB2C8, 0xB2E4, 0x2E]"

text \<open>
  \<^verbatim>\<open>filePath.split(/[\\/]/).pop() || ""\<close>: what follows the last slash or backslash,
  the whole path when there is none.
\<close>

definition isSeparator :: "16 word \<Rightarrow> bool" where
  "isSeparator u = (u = 0x5C \<or> u = 0x2F)"

definition lastSegment :: "jsstring \<Rightarrow> jsstring" where
  "lastSegment p = rev (takeWhile (\<lambda>u. \<not> isSeparator u) (rev p))"

definition handleFileDrop ::
  "(jsstring \<Rightarrow> jsstring + 8 word list) \<Rightarrow> (Request \<Rightarrow> jsstring + ConversionResult)
     \<Rightarrow> jsstring list \<Rightarrow> State \<Rightarrow> State \<times> Request list" where
  "handleFileDrop readFile invoke paths s =
     (let s0 = s\<lparr>isDragging := False\<rparr> in
      case paths of
        [] \<Rightarrow> (s0, [])
      | filePath # _ \<Rightarrow>
          if \<not> endsWith (toLowerCase filePath) str_mid
             \<and> \<not> endsWith (toLowerCase filePath) str_midi
          then (s0\<lparr>errorMessage := str_only_midi\<rparr>, [])
          else convertFile readFile invoke filePath (s0\<lparr>fileName := lastSegment filePath\<rparr>))"


subsection \<open>copyToClipboard (lines 170-177) and the copy button (line 340)\<close>

text \<open>
  The clipboard is a string owned by the system. \<^verbatim>\<open>navigator.clipboard.writeText\<close>
  returns a promise: when the system grants the write (\<open>granted\<close>), the clipboard holds
  the text and the callback records the index; when it refuses, the promise is rejected,
  the callback does not run and the clipboard is as before. The timer that sets
  \<^verbatim>\<open>copiedIndex\<close> back to -1 two seconds later is a later event, \<open>copiedTimeout\<close>.
\<close>

definition copyToClipboard :: "bool \<Rightarrow> jsstring \<Rightarrow> int \<Rightarrow> State \<times> jsstring \<Rightarrow> State \<times> jsstring" where
  "copyToClipboard granted text index sc =
     (if granted then ((fst sc)\<lparr>copiedIndex := index\<rparr>, text) else sc)"

definition copiedTimeout :: "State \<Rightarrow> State" where
  "copiedTimeout s = s\<lparr>copiedIndex := - 1\<rparr>"

text \<open>
  The result list of lines 320-347: one card per element of
  \<^verbatim>\<open>getSortedVoices(result.voices, sortBy)\<close>, shown when there is a result with at least
  one voice.
\<close>

definition shownVoices :: "(jsstring \<Rightarrow> jsstring \<Rightarrow> int) \<Rightarrow> State \<Rightarrow> VoiceResult list" where
  "shownVoices lc s =
     (case result s of
        None \<Rightarrow> []
      | Some r \<Rightarrow> if length (voices r) > 0 then getSortedVoices lc (Some (voices r)) (sortBy s) else [])"

text \<open>The \<^verbatim>\<open>onclick\<close> handler of the card at position \<open>idx\<close>:
  \<^verbatim>\<open>() => copyToClipboard(voice.content, idx)\<close>. There is no card at a position past the
  end of the list.\<close>

definition clickCopy ::
  "(jsstring \<Rightarrow> jsstring \<Rightarrow> int) \<Rightarrow> bool \<Rightarrow> nat \<Rightarrow> State \<times> jsstring \<Rightarrow> State \<times> jsstring" where
  "clickCopy lc granted idx sc =
     (if idx < length (shownVoices lc (fst sc))
      then copyToClipboard granted (content (shownVoices lc (fst sc) ! idx)) (int idx) sc
      else sc)"

subsection \<open>getTotalDuration (lines 186-190)\<close>

text \<open>
  \<^verbatim>\<open>Math.max\<close> starts from \<^verbatim>\<open>-Infinity\<close> and keeps the larger value, argument by
  argument.
\<close>

datatype maxnum = NegInfinity | Finite rat

definition Math_max :: "rat list \<Rightarrow> maxnum" where
  "Math_max xs =
     fold (\<lambda>x highest. case highest of
                          NegInfinity \<Rightarrow> Finite x
                        | Finite h \<Rightarrow> if x > h then Finite x else Finite h) xs NegInfinity"

text \<open>
  \<^verbatim>\<open>toFixed(1)\<close>. For a finite \<open>x\<close>: the sign is split off; a magnitude from \<open>10^21\<close>
  on (an integer, as every double of that size is) is printed as \<^verbatim>\<open>toString\<close> prints
  it; otherwise \<open>n\<close> is the integer with \<open>n / 10\<close> nearest to the magnitude, the larger
  one of two, its digits are padded to two places with a zero in front, and the point goes
  before the last digit.
\<close>

definition toFixed1 :: "maxnum \<Rightarrow> jsstring" where
  "toFixed1 v =
     (case v of
        NegInfinity \<Rightarrow> [0x2D, 0x49, 0x6E, 0x66, 0x69, 0x6E, 0x69, 0x74, 0x79]
      | Finite x0 \<Rightarrow>
          let sgn = (if x0 < 0 then [0x2D] else []);
              x = (if x0 < 0 then - x0 else x0)
          in if x \<ge> 10 ^ 21 then sgn @ toString_nonneg \<lfloor>x\<rfloor>
             else
               let n = \<lfloor>x * 10 + 1 / 2\<rfloor>;
                   m = digitsOf n;
                   m' = (if length m \<le> 1 then replicate (2 - length m) 0x30 @ m else m);
                   a = take (length m' - 1) m';
                   b = drop (length m' - 1) m'
               in sgn @ a @ [0x2E] @ b)"

text \<open>The literals of lines 187 and 189: the digit 0 followed by U+CD08 (the unit,
  seconds), and U+CD08 alone. The state argument is the
  component state the function reads \<^verbatim>\<open>result\<close> from.\<close>

definition getTotalDuration :: "State \<Rightarrow> jsstring" where
  "getTotalDuration s =
     (case result s of
        None \<Rightarrow> [0x30, 0xCD08]
      | Some r \<Rightarrow>
          if length (voices r) = 0 then [0x30, 0xCD08]
          else toFixed1 (Math_max (map duration (voices r))) @ [0xCD08])"

subsection \<open>Comparisons that sort\<close>

text \<open>
  A comparator is consistent on the elements of a list when "compares as not greater"
  is total and transitive on them: they fall into classes of elements that compare
  equal, and the classes are in a line. The language standard defines the order that
  \<^verbatim>\<open>sort\<close> produces for such comparators.
\<close>

definition consistent_comparator :: "('a \<Rightarrow> 'a \<Rightarrow> int) \<Rightarrow> 'a list \<Rightarrow> bool" where
  "consistent_comparator cmp xs =
     ((\<forall>a\<in>set xs. \<forall>b\<in>set xs. cmp a b \<le> 0 \<or> cmp b a \<le> 0)
      \<and> (\<forall>a\<in>set xs. \<forall>b\<in>set xs. \<forall>c\<in>set xs. cmp a b \<le> 0 \<and> cmp b c \<le> 0 \<longrightarrow> cmp a c \<le> 0))"

text \<open>
  A locale comparison that makes the comparator of lines 34-42 consistent: on the names
  it meets it is zero on identical names only, its sign flips when the arguments are
  exchanged, and it is transitive.
\<close>

definition consistent_comparison :: "(jsstring \<Rightarrow> jsstring \<Rightarrow> int) \<Rightarrow> jsstring list \<Rightarrow> bool" where
  "consistent_comparison lc ns =
     ((\<forall>a\<in>set ns. \<forall>b\<in>set ns. (lc a b = 0) = (a = b))
      \<and> (\<forall>a\<in>set ns. \<forall>b\<in>set ns. (lc a b < 0) = (lc b a > 0))
      \<and> (\<forall>a\<in>set ns. \<forall>b\<in>set ns. \<forall>c\<in>set ns. lc a b \<le> 0 \<and> lc b c \<le> 0 \<longrightarrow> lc a c \<le> 0))"

text \<open>A comparison for the examples: code unit by code unit, a proper prefix first.\<close>

fun compareUnits :: "jsstring \<Rightarrow> jsstring \<Rightarrow> int" where
  "compareUnits [] [] = 0"
| "compareUnits [] (y # ys) = - 1"
| "compareUnits (x # xs) [] = 1"
| "compareUnits (x # xs) (y # ys) =
     (if x < y then - 1 else if y < x then 1 else compareUnits xs ys)"

subsection \<open>Example data\<close>

text \<open>Four voices: the melody literal followed by \<^verbatim>\<open>" (P)"\<close>, \<^verbatim>\<open>"A (V)"\<close> with 3 notes,
  \<^verbatim>\<open>"B (P)"\<close> with 5 notes
  and \<^verbatim>\<open>"C (V)"\<close> with 7 notes.\<close>

definition ex_melody :: VoiceResult where
  "ex_melody = \<lparr>name = [0xBA5C, 0xB85C, 0xB514, 0x20, 0x28, 0x50, 0x29], content = [0x74, 0x31],
                char_count = 2, note_count = 1, duration = 3 / 2\<rparr>"

definition ex_a :: VoiceResult where
  "ex_a = \<lparr>name = [0x41, 0x20, 0x28, 0x56, 0x29], content = [0x74, 0x32],
           char_count = 2, note_count = 3, duration = 5 / 4\<rparr>"

definition ex_b :: VoiceResult where
  "ex_b = \<lparr>name = [0x42, 0x20, 0x28, 0x50, 0x29], content = [0x74, 0x33],
           char_count = 2, note_count = 5, duration = 7 / 2\<rparr>"

definition ex_c :: VoiceResult where
  "ex_c = \<lparr>name = [0x43, 0x20, 0x28, 0x56, 0x29], content = [0x74, 0x34],
           char_count = 2, note_count = 7, duration = 1\<rparr>"

definition ex_voices :: "VoiceResult list" where
  "ex_voices = [ex_a, ex_melody, ex_b, ex_c]"

definition ex_result :: ConversionResult where
  "ex_result = \<lparr>success = True, voices = ex_voices, error = None, bpm = 120, total_notes = 16\<rparr>"

text \<open>A failed conversion with the message \<^verbatim>\<open>"bad"\<close>.\<close>

definition ex_failure :: ConversionResult where
  "ex_failure = \<lparr>success = False, voices = [], error = Some [0x62, 0x61, 0x64], bpm = 0,
                 total_notes = 0\<rparr>"

text \<open>The state of lines 48-56: mode \<^verbatim>\<open>"normal"\<close>, limit 1200, sort key \<^verbatim>\<open>"notes"\<close>.\<close>

definition initialState :: State where
  "initialState =
     \<lparr>isDragging = False, isConverting = False, result = None, fileName = [],
      conversionMode = [0x6E, 0x6F, 0x72, 0x6D, 0x61, 0x6C], charLimit = Integer 1200,
      sortBy = str_notes, errorMessage = [], copiedIndex = - 1\<rparr>"

definition ex_readFile :: "jsstring \<Rightarrow> jsstring + 8 word list" where
  "ex_readFile p = Inr [0x4D, 0x54, 0x68, 0x64]"

definition ex_invoke_fails :: "Request \<Rightarrow> jsstring + ConversionResult" where
  "ex_invoke_fails req = Inr ex_failure"

definition ex_invoke_ok :: "Request \<Rightarrow> jsstring + ConversionResult" where
  "ex_invoke_ok req = Inr ex_result"

text \<open>The paths \<^verbatim>\<open>"a/B.MID"\<close> and \<^verbatim>\<open>"a.txt"\<close>.\<close>

definition ex_path_mid :: jsstring where
  "ex_path_mid = [0x61, 0x2F, 0x42, 0x2E, 0x4D, 0x49, 0x44]"


definition ex_store :: store where
  "ex_store = \<lparr>cells = (\<lambda>a. if a = 0 then Some ex_voices else None), next_ref = 1\<rparr>"

text \<open>A second store: the same voices at reference 3, another array at reference 1.\<close>

definition ex_store2 :: store where
  "ex_store2 =
     \<lparr>cells = (\<lambda>a. if a = 3 then Some ex_voices else if a = 1 then Some [ex_a] else None),
      next_ref = 5\<rparr>"

subsection \<open>Notions of the specification\<close>

text \<open>The maximum duration across the voices of a result, and the number of tenths
  nearest to a value (the larger one of two).\<close>

definition maxDuration :: "ConversionResult \<Rightarrow> rat" where
  "maxDuration r = Max (set (map duration (voices r)))"

definition nearestTenth :: "rat \<Rightarrow> int" where
  "nearestTenth x = \<lfloor>x * 10 + 1 / 2\<rfloor>"

text \<open>
  One decimal place: a minus sign for a negative value, the digits of the whole part of
  the magnitude rounded to tenths, a point, and the digit of the tenths.
\<close>

definition oneDecimal :: "rat \<Rightarrow> jsstring" where
  "oneDecimal x =
     (if x < 0 then [0x2D] else [])
       @ digitsOf (nearestTenth \<bar>x\<bar> div 10) @ [0x2E, digitChar (nearestTenth \<bar>x\<bar> mod 10)]"

text \<open>
  A parenthesised group of a name: an opening parenthesis after the prefix \<open>pre\<close>,
  a non-empty run \<open>g\<close> without a closing parenthesis, and a closing parenthesis. The
  first group is the one whose prefix is shortest.
\<close>

definition group_at :: "jsstring \<Rightarrow> jsstring \<Rightarrow> jsstring \<Rightarrow> bool" where
  "group_at s pre g = (g \<noteq> [] \<and> rparen \<notin> set g \<and> (\<exists>post. s = pre @ lparen # g @ rparen # post))"

definition has_group :: "jsstring \<Rightarrow> bool" where
  "has_group s = (\<exists>pre g. group_at s pre g)"

definition first_group :: "jsstring \<Rightarrow> jsstring \<Rightarrow> bool" where
  "first_group s g =
     (\<exists>pre. group_at s pre g \<and> (\<forall>pre' g'. group_at s pre' g' \<longrightarrow> length pre \<le> length pre'))"

text \<open>
  A result whose only voice lasts \<open>10^21\<close> seconds.
\<close>

definition ex_long_result :: ConversionResult where
  "ex_long_result =
     \<lparr>success = True, voices = [ex_melody\<lparr>duration := 10 ^ 21\<rparr>], error = None, bpm = 120,
      total_notes = 1\<rparr>"

text \<open>
  A locale comparison that, as the language standard requires of
  \<^verbatim>\<open>localeCompare\<close>, takes canonically equivalent strings as equal: \<open>canon\<close>
  writes the letter e followed by the combining acute accent (U+0065 U+0301) as the one
  code unit U+00E9, and the comparison is code unit by code unit on the results. The
  three voices are \<^verbatim>\<open>"a (E)"\<close> with 1 note, \<^verbatim>\<open>"b (E')"\<close> with 5 notes and
  \<^verbatim>\<open>"c (E)"\<close> with 3 notes, where \<^verbatim>\<open>E\<close> stands for U+00E9 and \<^verbatim>\<open>E'\<close> for
  U+0065 U+0301.
\<close>

fun canon :: "jsstring \<Rightarrow> jsstring" where
  "canon (a # b # cs) = (if a = 0x65 \<and> b = 0x301 then 0xE9 # canon cs else a # canon (b # cs))"
| "canon cs = cs"

definition ex_localeCompare :: "jsstring \<Rightarrow> jsstring \<Rightarrow> int" where
  "ex_localeCompare a b = compareUnits (canon a) (canon b)"

definition ex_e1 :: VoiceResult where
  "ex_e1 = \<lparr>name = [0x61, 0x20, 0x28, 0xE9, 0x29], content = [], char_count = 0,
            note_count = 1, duration = 1\<rparr>"

definition ex_e2 :: VoiceResult where
  "ex_e2 = \<lparr>name = [0x62, 0x20, 0x28, 0x65, 0x301, 0x29], content = [], char_count = 0,
            note_count = 5, duration = 1\<rparr>"

definition ex_e3 :: VoiceResult where
  "ex_e3 = \<lparr>name = [0x63, 0x20, 0x28, 0xE9, 0x29], content = [], char_count = 0,
            note_count = 3, duration = 1\<rparr>"

section \<open>Properties\<close>

subsection \<open>Sorting rearranges, and sorts when the comparator is consistent\<close>

lemma mset_sort_insert: "mset (sort_insert cmp x xs) = add_mset x (mset xs)"
  by (induction xs) simp_all

lemma mset_Array_sort: "mset (Array_sort cmp xs) = mset xs"
  by (induction xs) (simp_all add: mset_sort_insert)

lemma set_Array_sort: "set (Array_sort cmp xs) = set xs"
  using mset_Array_sort [of cmp xs] by (metis set_mset_mset)

lemma length_Array_sort: "length (Array_sort cmp xs) = length xs"
  using mset_Array_sort [of cmp xs] by (metis size_mset)

lemma set_sort_insert: "set (sort_insert cmp x xs) = insert x (set xs)"
  by (induction xs) auto

lemma sorted_wrt_sort_insert:
  assumes total: "\<And>a b. a \<in> S \<Longrightarrow> b \<in> S \<Longrightarrow> cmp a b \<le> 0 \<or> cmp b a \<le> 0"
    and trans: "\<And>a b c. a \<in> S \<Longrightarrow> b \<in> S \<Longrightarrow> c \<in> S \<Longrightarrow> cmp a b \<le> 0 \<Longrightarrow> cmp b c \<le> 0 \<Longrightarrow> cmp a c \<le> 0"
    and "x \<in> S" and "set xs \<subseteq> S"
    and "sorted_wrt (\<lambda>a b. cmp a b \<le> 0) xs"
  shows "sorted_wrt (\<lambda>a b. cmp a b \<le> 0) (sort_insert cmp x xs)"
  using assms(3-)
proof (induction xs)
  case Nil
  then show ?case by simp
next
  case (Cons y ys)
  show ?case
  proof (cases "cmp x y \<le> 0")
    case True
    have "cmp x z \<le> 0" if "z \<in> set ys" for z
    proof -
      have "cmp y z \<le> 0" using Cons.prems(3) that by simp
      then show ?thesis using trans [of x y z] True Cons.prems(1,2) that by auto
    qed
    then show ?thesis using True Cons.prems(3) by simp
  next
    case False
    then have yx: "cmp y x \<le> 0" using total [of x y] Cons.prems(1,2) by auto
    have "sorted_wrt (\<lambda>a b. cmp a b \<le> 0) (sort_insert cmp x ys)"
      using Cons.IH Cons.prems by simp
    then show ?thesis using False yx Cons.prems(3) by (auto simp: set_sort_insert)
  qed
qed

lemma sorted_wrt_Array_sort:
  assumes total: "\<And>a b. a \<in> S \<Longrightarrow> b \<in> S \<Longrightarrow> cmp a b \<le> 0 \<or> cmp b a \<le> 0"
    and trans: "\<And>a b c. a \<in> S \<Longrightarrow> b \<in> S \<Longrightarrow> c \<in> S \<Longrightarrow> cmp a b \<le> 0 \<Longrightarrow> cmp b c \<le> 0 \<Longrightarrow> cmp a c \<le> 0"
    and "set xs \<subseteq> S"
  shows "sorted_wrt (\<lambda>a b. cmp a b \<le> 0) (Array_sort cmp xs)"
  using assms(3)
proof (induction xs)
  case Nil
  then show ?case by simp
next
  case (Cons x xs)
  have "sorted_wrt (\<lambda>a b. cmp a b \<le> 0) (sort_insert cmp x (Array_sort cmp xs))"
  proof (rule sorted_wrt_sort_insert [where S = S])
    show "x \<in> S" using Cons.prems by simp
    show "set (Array_sort cmp xs) \<subseteq> S" using Cons.prems by (simp add: set_Array_sort)
    show "sorted_wrt (\<lambda>a b. cmp a b \<le> 0) (Array_sort cmp xs)" using Cons by simp
  qed (use total trans in blast)+
  then show ?case by simp
qed

lemma filter_sort_insert_other:
  "\<not> P x \<Longrightarrow> filter P (sort_insert cmp x ys) = filter P ys"
  by (induction ys) simp_all

lemma filter_sort_insert_class:
  assumes trans: "\<And>u v w. u \<in> S \<Longrightarrow> v \<in> S \<Longrightarrow> w \<in> S \<Longrightarrow> cmp u v \<le> 0 \<Longrightarrow> cmp v w \<le> 0 \<Longrightarrow> cmp u w \<le> 0"
    and "a \<in> S" "x \<in> S" "set ys \<subseteq> S"
    and "cmp a x \<le> 0 \<and> cmp x a \<le> 0"
  shows "filter (\<lambda>y. cmp a y \<le> 0 \<and> cmp y a \<le> 0) (sort_insert cmp x ys)
           = x # filter (\<lambda>y. cmp a y \<le> 0 \<and> cmp y a \<le> 0) ys"
  using assms(4)
proof (induction ys)
  case Nil
  then show ?case using assms(5) by simp
next
  case (Cons y ys)
  show ?case
  proof (cases "cmp x y \<le> 0")
    case True
    then show ?thesis using assms(5) by simp
  next
    case False
    have "\<not> cmp a y \<le> 0"
    proof
      assume "cmp a y \<le> 0"
      then have "cmp x y \<le> 0" using trans [of x a y] assms(2,3,5) Cons.prems by simp
      with False show False by simp
    qed
    then show ?thesis using False Cons by simp
  qed
qed

text \<open>
  Stability: for a consistent comparator the elements that compare equal to a given one
  come out in their input order. With \<open>sorted_wrt_Array_sort\<close> and
  \<open>mset_Array_sort\<close> this fixes the result: it is the arrangement the standard
  prescribes.
\<close>

lemma Array_sort_stable:
  assumes "consistent_comparator cmp xs" and "a \<in> set xs"
  shows "filter (\<lambda>y. cmp a y \<le> 0 \<and> cmp y a \<le> 0) (Array_sort cmp xs)
           = filter (\<lambda>y. cmp a y \<le> 0 \<and> cmp y a \<le> 0) xs"
proof -
  have trans: "\<And>u v w. u \<in> set xs \<Longrightarrow> v \<in> set xs \<Longrightarrow> w \<in> set xs \<Longrightarrow>
      cmp u v \<le> 0 \<Longrightarrow> cmp v w \<le> 0 \<Longrightarrow> cmp u w \<le> 0"
    using assms(1) unfolding consistent_comparator_def by blast
  have "set zs \<subseteq> set xs \<Longrightarrow>
      filter (\<lambda>y. cmp a y \<le> 0 \<and> cmp y a \<le> 0) (Array_sort cmp zs)
        = filter (\<lambda>y. cmp a y \<le> 0 \<and> cmp y a \<le> 0) zs" for zs
  proof (induction zs)
    case Nil
    then show ?case by simp
  next
    case (Cons z zs)
    show ?case
    proof (cases "cmp a z \<le> 0 \<and> cmp z a \<le> 0")
      case True
      have "filter (\<lambda>y. cmp a y \<le> 0 \<and> cmp y a \<le> 0) (sort_insert cmp z (Array_sort cmp zs))
              = z # filter (\<lambda>y. cmp a y \<le> 0 \<and> cmp y a \<le> 0) (Array_sort cmp zs)"
      proof (rule filter_sort_insert_class [where S = "set xs"])
        show "a \<in> set xs" by (rule assms(2))
        show "z \<in> set xs" using Cons.prems by simp
        show "set (Array_sort cmp zs) \<subseteq> set xs" using Cons.prems by (simp add: set_Array_sort)
        show "cmp a z \<le> 0 \<and> cmp z a \<le> 0" by (rule True)
      qed (rule trans)
      then show ?thesis using True Cons by simp
    next
      case False
      then show ?thesis using Cons by (simp add: filter_sort_insert_other)
    qed
  qed
  then show ?thesis by simp
qed

text \<open>
  A list whose neighbours are each in comparator order comes back as it is, for any
  comparator: the sort finds nothing to move.
\<close>

lemma Array_sort_run:
  "successively (\<lambda>a b. cmp a b \<le> 0) xs \<Longrightarrow> Array_sort cmp xs = xs"
proof (induction xs)
  case Nil
  then show ?case by simp
next
  case (Cons x xs)
  then have "Array_sort cmp xs = xs" by (cases xs) simp_all
  then show ?case using Cons.prems by (cases xs) simp_all
qed

subsection \<open>Melody first\<close>

lemma isOther_iff: "isOther v \<longleftrightarrow> \<not> isMelody v"
  by (simp add: isOther_def isMelody_def)

text \<open>The shape of the result: the melody voices as filtered, then a rearrangement of
  the other voices.\<close>

lemma getSortedVoices_shape:
  "\<exists>os. getSortedVoices lc (Some vs) sortKey = filter isMelody vs @ os
        \<and> mset os = mset (filter isOther vs)"
proof (cases "vs = []")
  case True
  then show ?thesis by (simp add: getSortedVoices_def)
next
  case False
  then show ?thesis
    by (auto simp: getSortedVoices_def Let_def mset_Array_sort)
qed

lemma others_not_melody:
  assumes "mset os = mset (filter isOther vs)" and "v \<in> set os"
  shows "\<not> isMelody v"
proof -
  have "set os = set (filter isOther vs)" using assms(1) by (metis set_mset_mset)
  with assms(2) show ?thesis by (simp add: isOther_iff)
qed

lemma mset_partition_melody:
  "mset (filter isMelody vs) + mset (filter isOther vs) = mset vs"
  by (induction vs) (simp_all add: isOther_iff)

text \<open>
  Claim C1. For every list of voices and every sort key (\<^verbatim>\<open>"notes"\<close>,
  \<^verbatim>\<open>"instrument"\<close> or any other string), the result of \<open>getSortedVoices\<close> is a
  permutation of the input; a voice whose name is or starts with the melody literal stands
  before every voice whose name does not; and the melody voices are in their input order.
\<close>

theorem getSortedVoices_melody_first:
  "mset (getSortedVoices lc (Some vs) sortKey) = mset vs
   \<and> (\<forall>i j. i < length (getSortedVoices lc (Some vs) sortKey)
          \<and> j < length (getSortedVoices lc (Some vs) sortKey)
          \<and> isMelody (getSortedVoices lc (Some vs) sortKey ! i)
          \<and> \<not> isMelody (getSortedVoices lc (Some vs) sortKey ! j) \<longrightarrow> i < j)
   \<and> filter isMelody (getSortedVoices lc (Some vs) sortKey) = filter isMelody vs"
proof -
  obtain os where out: "getSortedVoices lc (Some vs) sortKey = filter isMelody vs @ os"
    and os: "mset os = mset (filter isOther vs)"
    using getSortedVoices_shape by blast
  have no_mel: "\<And>v. v \<in> set os \<Longrightarrow> \<not> isMelody v"
    using others_not_melody [OF os] .
  have perm: "mset (getSortedVoices lc (Some vs) sortKey) = mset vs"
    by (simp only: out mset_append os mset_partition_melody)
  have keep: "filter isMelody (getSortedVoices lc (Some vs) sortKey) = filter isMelody vs"
    using no_mel by (simp add: out filter_empty_conv)
  have before: "i < j"
    if "i < length (filter isMelody vs @ os)" "j < length (filter isMelody vs @ os)"
       "isMelody ((filter isMelody vs @ os) ! i)" "\<not> isMelody ((filter isMelody vs @ os) ! j)"
    for i j
  proof -
    have i: "i < length (filter isMelody vs)"
    proof (rule ccontr)
      assume "\<not> i < length (filter isMelody vs)"
      then have "(filter isMelody vs @ os) ! i \<in> set os"
        using that(1) by (simp add: nth_append)
      then show False using no_mel that(3) by blast
    qed
    have j: "\<not> j < length (filter isMelody vs)"
    proof
      assume "j < length (filter isMelody vs)"
      then have "(filter isMelody vs @ os) ! j \<in> set (filter isMelody vs)"
        using nth_mem [of j "filter isMelody vs"] by (simp only: nth_append if_True)
      then show False using that(4) by simp
    qed
    from i j show ?thesis by simp
  qed
  show ?thesis using perm keep before by (simp add: out)
qed

lemma ex_sorted_by_notes:
  "getSortedVoices compareUnits (Some ex_voices) str_notes = [ex_melody, ex_c, ex_b, ex_a]"
  by code_simp

lemma ex_melody_is_melody: "isMelody ex_melody"
  by code_simp

lemma ex_c_is_other: "\<not> isMelody ex_c"
  by code_simp

theorem getSortedVoices_melody_first_witness:
  "getSortedVoices compareUnits (Some ex_voices) str_notes = [ex_melody, ex_c, ex_b, ex_a]
   \<and> mset (getSortedVoices compareUnits (Some ex_voices) str_notes) = mset ex_voices
   \<and> isMelody (getSortedVoices compareUnits (Some ex_voices) str_notes ! 0)
   \<and> \<not> isMelody (getSortedVoices compareUnits (Some ex_voices) str_notes ! 1)
   \<and> (0::nat) < 1
   \<and> filter isMelody (getSortedVoices compareUnits (Some ex_voices) str_notes)
       = filter isMelody ex_voices"
proof -
  note t = getSortedVoices_melody_first [of compareUnits ex_voices str_notes]
  have 1: "mset (getSortedVoices compareUnits (Some ex_voices) str_notes) = mset ex_voices"
    and 2: "filter isMelody (getSortedVoices compareUnits (Some ex_voices) str_notes)
       = filter isMelody ex_voices"
    using t by blast+
  have 3: "isMelody (getSortedVoices compareUnits (Some ex_voices) str_notes ! 0)"
    "\<not> isMelody (getSortedVoices compareUnits (Some ex_voices) str_notes ! 1)"
    by (simp_all add: ex_sorted_by_notes ex_melody_is_melody ex_c_is_other)
  show ?thesis using 1 2 3 ex_sorted_by_notes by simp
qed

subsection \<open>The view transform leaves its argument alone\<close>

lemma alloc_props:
  assumes "wf_store st"
  shows "cells (snd (alloc xs st)) (fst (alloc xs st)) = Some xs"
    and "cells st (fst (alloc xs st)) = None"
    and "cells st b \<noteq> None \<Longrightarrow> cells (snd (alloc xs st)) b = cells st b"
  using assms by (auto simp: alloc_def wf_store_def)

text \<open>The run on the store returns a new array that holds what the function on values
  computes, and changes no array that was there before.\<close>

lemma getSortedVoices_st_correct:
  assumes wf: "wf_store st" and a: "cells st a = Some vs"
  shows "cells (snd (getSortedVoices_st lc (Some a) sortKey st))
               (fst (getSortedVoices_st lc (Some a) sortKey st))
           = Some (getSortedVoices lc (Some vs) sortKey)"
    and "cells st (fst (getSortedVoices_st lc (Some a) sortKey st)) = None"
    and "\<And>b. cells st b \<noteq> None \<Longrightarrow>
           cells (snd (getSortedVoices_st lc (Some a) sortKey st)) b = cells st b"
proof -
  have lt: "a < next_ref st" using wf a by (simp add: wf_store_def)
  have fresh: "cells st (next_ref st) = None" "cells st (Suc (next_ref st)) = None"
    "cells st (Suc (Suc (next_ref st))) = None"
    using wf by (auto simp: wf_store_def)
  show "cells (snd (getSortedVoices_st lc (Some a) sortKey st))
              (fst (getSortedVoices_st lc (Some a) sortKey st))
           = Some (getSortedVoices lc (Some vs) sortKey)"
    using a lt
    by (simp add: getSortedVoices_st_def getSortedVoices_def Array_filter_def Array_spread2_def
        Array_sort_in_place_def alloc_def deref_def Let_def)
  show "cells st (fst (getSortedVoices_st lc (Some a) sortKey st)) = None"
    using a fresh
    by (simp add: getSortedVoices_st_def Array_filter_def Array_spread2_def
        Array_sort_in_place_def alloc_def deref_def Let_def)
  show "cells (snd (getSortedVoices_st lc (Some a) sortKey st)) b = cells st b"
    if "cells st b \<noteq> None" for b
  proof -
    have "b < next_ref st" using wf that by (simp add: wf_store_def)
    then show ?thesis using a
      by (simp add: getSortedVoices_st_def Array_filter_def Array_spread2_def
        Array_sort_in_place_def alloc_def deref_def Let_def)
  qed
qed

lemma wf_ex_store: "wf_store ex_store"
  by (simp add: wf_store_def ex_store_def)

lemma wf_ex_store2: "wf_store ex_store2"
  by (simp add: wf_store_def ex_store2_def)

text \<open>
  Claim C2. \<open>getSortedVoices\<close> reads its argument and writes nothing that was there:
  after the call the input array holds the same elements in the same order, every other
  array of the store is as before, and the array returned is a new one (its reference
  denoted nothing before the call). For an empty array and for a missing argument the
  array returned is empty.
\<close>

theorem getSortedVoices_read_only:
  assumes "wf_store st"
  shows "(cells st a = Some vs \<longrightarrow>
            cells (snd (getSortedVoices_st lc (Some a) sortKey st)) a = Some vs
          \<and> (\<forall>b. cells st b \<noteq> None \<longrightarrow>
                 cells (snd (getSortedVoices_st lc (Some a) sortKey st)) b = cells st b)
          \<and> cells st (fst (getSortedVoices_st lc (Some a) sortKey st)) = None
          \<and> cells (snd (getSortedVoices_st lc (Some a) sortKey st))
                   (fst (getSortedVoices_st lc (Some a) sortKey st))
              = Some (getSortedVoices lc (Some vs) sortKey))
       \<and> (cells st a = Some [] \<longrightarrow>
            cells (snd (getSortedVoices_st lc (Some a) sortKey st))
                  (fst (getSortedVoices_st lc (Some a) sortKey st)) = Some [])
       \<and> cells (snd (getSortedVoices_st lc None sortKey st))
               (fst (getSortedVoices_st lc None sortKey st)) = Some []
       \<and> (\<forall>b. cells st b \<noteq> None \<longrightarrow>
              cells (snd (getSortedVoices_st lc None sortKey st)) b = cells st b)
       \<and> getSortedVoices lc None sortKey = []
       \<and> getSortedVoices lc (Some []) sortKey = []"
proof (intro conjI impI allI)
  assume a: "cells st a = Some vs"
  show "cells (snd (getSortedVoices_st lc (Some a) sortKey st)) a = Some vs"
    using getSortedVoices_st_correct(3) [OF assms a, of a lc sortKey] a by simp
  show "cells st (fst (getSortedVoices_st lc (Some a) sortKey st)) = None"
    by (rule getSortedVoices_st_correct(2) [OF assms a])
  show "cells (snd (getSortedVoices_st lc (Some a) sortKey st))
              (fst (getSortedVoices_st lc (Some a) sortKey st))
              = Some (getSortedVoices lc (Some vs) sortKey)"
    by (rule getSortedVoices_st_correct(1) [OF assms a])
  fix b assume "cells st b \<noteq> None"
  then show "cells (snd (getSortedVoices_st lc (Some a) sortKey st)) b = cells st b"
    by (rule getSortedVoices_st_correct(3) [OF assms a])
next
  assume a: "cells st a = Some []"
  show "cells (snd (getSortedVoices_st lc (Some a) sortKey st))
              (fst (getSortedVoices_st lc (Some a) sortKey st)) = Some []"
    using getSortedVoices_st_correct(1) [OF assms a, of lc sortKey]
    by (simp add: getSortedVoices_def)
next
  show "cells (snd (getSortedVoices_st lc None sortKey st))
              (fst (getSortedVoices_st lc None sortKey st)) = Some []"
    using alloc_props(1) [OF assms] by (simp add: getSortedVoices_st_def)
next
  fix b assume "cells st b \<noteq> None"
  then show "cells (snd (getSortedVoices_st lc None sortKey st)) b = cells st b"
    using alloc_props(3) [OF assms] by (simp add: getSortedVoices_st_def)
next
  show "getSortedVoices lc None sortKey = []" by (simp add: getSortedVoices_def)
next
  show "getSortedVoices lc (Some []) sortKey = []" by (simp add: getSortedVoices_def)
qed

lemma ex_store_0: "cells ex_store 0 = Some ex_voices"
  by (simp add: ex_store_def)

theorem getSortedVoices_read_only_witness:
  "wf_store ex_store \<and> cells ex_store 0 = Some ex_voices
   \<and> cells (snd (getSortedVoices_st compareUnits (Some 0) str_notes ex_store)) 0 = Some ex_voices
   \<and> cells ex_store (fst (getSortedVoices_st compareUnits (Some 0) str_notes ex_store)) = None
   \<and> cells (snd (getSortedVoices_st compareUnits (Some 0) str_notes ex_store))
            (fst (getSortedVoices_st compareUnits (Some 0) str_notes ex_store))
        = Some [ex_melody, ex_c, ex_b, ex_a]"
  using getSortedVoices_read_only [OF wf_ex_store, of 0 ex_voices compareUnits str_notes]
    wf_ex_store ex_store_0
  by (simp add: ex_sorted_by_notes)

text \<open>
  Claim C7. \<open>getSortedVoices\<close> is deterministic and stateless: two calls whose
  argument arrays hold equal lists (or whose arguments are both missing) and whose sort
  keys are equal return arrays that hold equal lists, whatever else the two stores hold
  and wherever the arrays lie. The result is a function of the list and the key (and of
  the host's locale comparison); the component state is no argument of the function.
\<close>

theorem getSortedVoices_deterministic:
  assumes "wf_store st1" and "wf_store st2"
    and "cells st1 a1 = Some vs" and "cells st2 a2 = Some vs"
  shows "cells (snd (getSortedVoices_st lc (Some a1) sortKey st1))
               (fst (getSortedVoices_st lc (Some a1) sortKey st1))
         = cells (snd (getSortedVoices_st lc (Some a2) sortKey st2))
                 (fst (getSortedVoices_st lc (Some a2) sortKey st2))
       \<and> cells (snd (getSortedVoices_st lc (Some a1) sortKey st1))
               (fst (getSortedVoices_st lc (Some a1) sortKey st1))
         = Some (getSortedVoices lc (Some vs) sortKey)
       \<and> cells (snd (getSortedVoices_st lc None sortKey st1))
               (fst (getSortedVoices_st lc None sortKey st1))
         = cells (snd (getSortedVoices_st lc None sortKey st2))
                 (fst (getSortedVoices_st lc None sortKey st2))"
  using getSortedVoices_st_correct(1) [OF assms(1) assms(3), of lc sortKey]
        getSortedVoices_st_correct(1) [OF assms(2) assms(4), of lc sortKey]
        alloc_props(1) [OF assms(1), of "[]"] alloc_props(1) [OF assms(2), of "[]"]
  by (simp add: getSortedVoices_st_def)

lemma ex_store2_3: "cells ex_store2 3 = Some ex_voices"
  by (simp add: ex_store2_def)

theorem getSortedVoices_deterministic_witness:
  "wf_store ex_store \<and> wf_store ex_store2
   \<and> cells ex_store 0 = Some ex_voices \<and> cells ex_store2 3 = Some ex_voices
   \<and> cells (snd (getSortedVoices_st compareUnits (Some 0) str_instrument ex_store))
            (fst (getSortedVoices_st compareUnits (Some 0) str_instrument ex_store))
      = cells (snd (getSortedVoices_st compareUnits (Some 3) str_instrument ex_store2))
              (fst (getSortedVoices_st compareUnits (Some 3) str_instrument ex_store2))"
  using getSortedVoices_deterministic
          [OF wf_ex_store wf_ex_store2 ex_store_0 ex_store2_3, of compareUnits str_instrument]
    wf_ex_store wf_ex_store2 ex_store_0 ex_store2_3
  by simp

subsection \<open>The instrument name of a voice\<close>

text \<open>
  What the regular expression finds: the match is the first group of the name, and there
  is no match exactly when the name has no group.
\<close>

lemma group_at_head:
  assumes "group_at (c # cs) [] g"
  shows "c = lparen" and "takeWhile (\<lambda>u. u \<noteq> rparen) cs = g"
    and "dropWhile (\<lambda>u. u \<noteq> rparen) cs \<noteq> []" and "g \<noteq> []"
proof -
  obtain post where d: "c # cs = lparen # g @ rparen # post" and g: "g \<noteq> []" "rparen \<notin> set g"
    using assms unfolding group_at_def by auto
  show "c = lparen" using d by simp
  have cs: "cs = g @ rparen # post" using d by simp
  have ne: "\<And>u. u \<in> set g \<Longrightarrow> u \<noteq> rparen" using g(2) by auto
  show "takeWhile (\<lambda>u. u \<noteq> rparen) cs = g"
    unfolding cs using ne by (simp add: takeWhile_append2)
  show "dropWhile (\<lambda>u. u \<noteq> rparen) cs \<noteq> []"
    unfolding cs using ne by (simp add: dropWhile_append2)
  show "g \<noteq> []" by (rule g(1))
qed

lemma group_at_Cons:
  "group_at (c # cs) (p # pre) g \<longleftrightarrow> p = c \<and> group_at cs pre g"
  by (auto simp: group_at_def)

lemma group_at_found:
  assumes "c = lparen" and "takeWhile (\<lambda>u. u \<noteq> rparen) cs \<noteq> []"
    and "dropWhile (\<lambda>u. u \<noteq> rparen) cs \<noteq> []"
  shows "group_at (c # cs) [] (takeWhile (\<lambda>u. u \<noteq> rparen) cs)"
proof -
  let ?run = "takeWhile (\<lambda>u. u \<noteq> rparen) cs" and ?rest = "dropWhile (\<lambda>u. u \<noteq> rparen) cs"
  have "hd ?rest = rparen" using assms(3) hd_dropWhile [of "\<lambda>u. u \<noteq> rparen" cs] by auto
  then have "?rest = rparen # tl ?rest" using assms(3) by (metis list.collapse)
  then have "cs = ?run @ rparen # tl ?rest" by (metis takeWhile_dropWhile_id)
  then have "c # cs = [] @ lparen # ?run @ rparen # tl ?rest" using assms(1) by simp
  then have "\<exists>post. c # cs = [] @ lparen # ?run @ rparen # post" by (rule exI)
  moreover have "rparen \<notin> set ?run" by (auto dest: set_takeWhileD)
  ultimately show ?thesis unfolding group_at_def using assms(2) by (intro conjI)
qed

lemma match_group_first: "match_group s = Some g \<Longrightarrow> first_group s g"
proof (induction s)
  case Nil
  then show ?case by simp
next
  case (Cons c cs)
  let ?run = "takeWhile (\<lambda>u. u \<noteq> rparen) cs" and ?rest = "dropWhile (\<lambda>u. u \<noteq> rparen) cs"
  show ?case
  proof (cases "c = lparen \<and> ?run \<noteq> [] \<and> ?rest \<noteq> []")
    case True
    then have g: "g = ?run" using Cons.prems by simp
    have "group_at (c # cs) [] g" unfolding g using True by (intro group_at_found) simp_all
    moreover have "\<forall>pre' g'. group_at (c # cs) pre' g' \<longrightarrow> length ([]::jsstring) \<le> length pre'"
      by simp
    ultimately show ?thesis unfolding first_group_def by (intro exI conjI)
  next
    case False
    then have m: "match_group cs = Some g" using Cons.prems by (simp split: if_splits)
    then have "first_group cs g" by (rule Cons.IH)
    then obtain pre where pre: "group_at cs pre g"
      and least: "\<And>pre' g'. group_at cs pre' g' \<Longrightarrow> length pre \<le> length pre'"
      unfolding first_group_def by blast
    have here: "group_at (c # cs) (c # pre) g" using pre by (simp add: group_at_Cons)
    have "length (c # pre) \<le> length pre'" if ga: "group_at (c # cs) pre' g'" for pre' g'
    proof (cases pre')
      case Nil
      then have "c = lparen \<and> ?run \<noteq> [] \<and> ?rest \<noteq> []"
        using group_at_head [of c cs g'] ga by simp
      then show ?thesis using False by simp
    next
      case (Cons p pre'')
      then have "group_at cs pre'' g'" using ga by (simp add: group_at_Cons)
      then have "length pre \<le> length pre''" by (rule least)
      then show ?thesis using Cons by simp
    qed
    then have "\<forall>pre' g'. group_at (c # cs) pre' g' \<longrightarrow> length (c # pre) \<le> length pre'"
      by blast
    then show ?thesis unfolding first_group_def using here by (intro exI conjI)
  qed
qed

lemma match_group_none: "match_group s = None \<Longrightarrow> \<not> has_group s"
proof (induction s)
  case Nil
  then show ?case by (simp add: has_group_def group_at_def)
next
  case (Cons c cs)
  have none: "match_group cs = None" using Cons.prems by (simp split: if_splits)
  show ?case
  proof
    assume "has_group (c # cs)"
    then obtain pre g where ga: "group_at (c # cs) pre g" unfolding has_group_def by blast
    show False
    proof (cases pre)
      case Nil
      then have "c = lparen \<and> takeWhile (\<lambda>u. u \<noteq> rparen) cs \<noteq> []
                   \<and> dropWhile (\<lambda>u. u \<noteq> rparen) cs \<noteq> []"
        using group_at_head [of c cs g] ga by simp
      then show False using Cons.prems by simp
    next
      case (Cons p pre')
      then have "group_at cs pre' g" using ga by (simp add: group_at_Cons)
      then have "has_group cs" unfolding has_group_def by blast
      then show False using Cons.IH [OF none] by simp
    qed
  qed
qed

lemma first_group_unique:
  assumes "first_group s g" "first_group s g2"
  shows "g = g2"
proof -
  obtain pre where p1: "group_at s pre g"
    and l1: "\<And>pre' g'. group_at s pre' g' \<Longrightarrow> length pre \<le> length pre'"
    using assms(1) unfolding first_group_def by blast
  obtain pre2 where p2: "group_at s pre2 g2"
    and l2: "\<And>pre' g'. group_at s pre' g' \<Longrightarrow> length pre2 \<le> length pre'"
    using assms(2) unfolding first_group_def by blast
  have len: "length pre = length pre2" using l1 [OF p2] l2 [OF p1] by simp
  obtain post where s1: "s = pre @ lparen # g @ rparen # post" and g1: "rparen \<notin> set g"
    using p1 unfolding group_at_def by blast
  obtain post2 where s2: "s = pre2 @ lparen # g2 @ rparen # post2" and g2: "rparen \<notin> set g2"
    using p2 unfolding group_at_def by blast
  have "pre @ lparen # g @ rparen # post = pre2 @ lparen # g2 @ rparen # post2"
    using s1 s2 by simp
  then have eq: "g @ rparen # post = g2 @ rparen # post2" using len by simp
  have n1: "\<And>u. u \<in> set g \<Longrightarrow> u \<noteq> rparen" using g1 by auto
  have n2: "\<And>u. u \<in> set g2 \<Longrightarrow> u \<noteq> rparen" using g2 by auto
  have "takeWhile (\<lambda>u. u \<noteq> rparen) (g @ rparen # post) = g"
    using n1 by (simp add: takeWhile_append2)
  moreover have "takeWhile (\<lambda>u. u \<noteq> rparen) (g2 @ rparen # post2) = g2"
    using n2 by (simp add: takeWhile_append2)
  ultimately show ?thesis using eq by simp
qed

lemma first_group_match: "first_group s g \<Longrightarrow> match_group s = Some g"
proof -
  assume fg: "first_group s g"
  then have "has_group s" unfolding first_group_def has_group_def by blast
  then have "match_group s \<noteq> None" using match_group_none by blast
  then obtain g2 where m: "match_group s = Some g2" by auto
  then have "first_group s g2" by (rule match_group_first)
  then have "g = g2" using fg first_group_unique by blast
  then show ?thesis using m by simp
qed

lemma instrumentOf_eq:
  "instrumentOf v = (case match_group (name v) of None \<Rightarrow> [] | Some g \<Rightarrow> g)"
  by (simp add: instrumentOf_def split: option.splits)

lemma instrumentOf_first_group: "first_group (name v) g \<Longrightarrow> instrumentOf v = g"
  using first_group_match [of "name v" g] by (simp add: instrumentOf_eq)

lemma instrumentOf_no_group: "\<not> has_group (name v) \<Longrightarrow> instrumentOf v = []"
proof -
  assume ng: "\<not> has_group (name v)"
  have "match_group (name v) = None"
  proof (cases "match_group (name v)")
    case None
    then show ?thesis .
  next
    case (Some g)
    then have "first_group (name v) g" by (rule match_group_first)
    then have "has_group (name v)" unfolding first_group_def has_group_def by blast
    then show ?thesis using ng by simp
  qed
  then show ?thesis by (simp add: instrumentOf_eq)
qed

subsection \<open>Sorting by instrument\<close>

lemma cmpInstrument_total:
  assumes "consistent_comparison lc ns" "instrumentOf a \<in> set ns" "instrumentOf b \<in> set ns"
  shows "cmpInstrument lc a b \<le> 0 \<or> cmpInstrument lc b a \<le> 0"
proof (cases "instrumentOf a = instrumentOf b")
  case True
  then show ?thesis by (auto simp: cmpInstrument_def Let_def)
next
  case False
  have "(lc (instrumentOf a) (instrumentOf b) < 0) = (lc (instrumentOf b) (instrumentOf a) > 0)"
       "(lc (instrumentOf b) (instrumentOf a) < 0) = (lc (instrumentOf a) (instrumentOf b) > 0)"
    using assms by (auto simp: consistent_comparison_def)
  then show ?thesis using False by (auto simp: cmpInstrument_def Let_def)
qed

lemma cmpInstrument_trans:
  assumes cc: "consistent_comparison lc ns"
    and mem: "instrumentOf a \<in> set ns" "instrumentOf b \<in> set ns" "instrumentOf c \<in> set ns"
    and ab: "cmpInstrument lc a b \<le> 0" and bc: "cmpInstrument lc b c \<le> 0"
  shows "cmpInstrument lc a c \<le> 0"
proof -
  let ?a = "instrumentOf a" and ?b = "instrumentOf b" and ?c = "instrumentOf c"
  have zero: "\<And>x y. x \<in> set ns \<Longrightarrow> y \<in> set ns \<Longrightarrow> (lc x y = 0) = (x = y)"
    and anti: "\<And>x y. x \<in> set ns \<Longrightarrow> y \<in> set ns \<Longrightarrow> (lc x y < 0) = (lc y x > 0)"
    and tr: "\<And>x y z. x \<in> set ns \<Longrightarrow> y \<in> set ns \<Longrightarrow> z \<in> set ns \<Longrightarrow> lc x y \<le> 0 \<Longrightarrow> lc y z \<le> 0 \<Longrightarrow> lc x z \<le> 0"
    using cc unfolding consistent_comparison_def by blast+
  consider (eq3) "?a = ?b" "?b = ?c" | (eq_ab) "?a = ?b" "?b \<noteq> ?c" | (eq_bc) "?a \<noteq> ?b" "?b = ?c"
    | (eq_ac) "?a \<noteq> ?b" "?b \<noteq> ?c" "?a = ?c" | (neq) "?a \<noteq> ?b" "?b \<noteq> ?c" "?a \<noteq> ?c"
    by blast
  then show ?thesis
  proof cases
    case eq3
    then show ?thesis using ab bc by (simp add: cmpInstrument_def Let_def)
  next
    case eq_ab
    then show ?thesis using ab bc by (simp add: cmpInstrument_def Let_def)
  next
    case eq_bc
    then show ?thesis using ab bc by (simp add: cmpInstrument_def Let_def)
  next
    case eq_ac
    have 1: "lc ?a ?b \<le> 0" using ab eq_ac by (simp add: cmpInstrument_def Let_def)
    have 2: "lc ?b ?a \<le> 0" using bc eq_ac by (simp add: cmpInstrument_def Let_def)
    have "lc ?a ?b \<noteq> 0" using zero [OF mem(1,2)] eq_ac by simp
    with 1 have "lc ?a ?b < 0" by simp
    then have "lc ?b ?a > 0" using anti [OF mem(1,2)] by simp
    with 2 show ?thesis by simp
  next
    case neq
    have "lc ?a ?b \<le> 0" "lc ?b ?c \<le> 0" using ab bc neq by (simp_all add: cmpInstrument_def Let_def)
    then have "lc ?a ?c \<le> 0" using tr [OF mem] by simp
    then show ?thesis using neq by (simp add: cmpInstrument_def Let_def)
  qed
qed

lemma filter_isOther_result:
  "filter isOther (getSortedVoices lc (Some vs) str_instrument)
     = Array_sort (cmpInstrument lc) (filter isOther vs)"
proof (cases "vs = []")
  case True
  then show ?thesis by (simp add: getSortedVoices_def)
next
  case False
  have neq: "str_instrument \<noteq> str_notes" by (simp add: str_instrument_def str_notes_def)
  have 1: "filter isOther (filter isMelody vs) = []"
    by (simp add: filter_empty_conv isOther_iff)
  have "\<forall>v\<in>set (Array_sort (cmpInstrument lc) (filter isOther vs)). isOther v"
    by (simp add: set_Array_sort)
  then have 2: "filter isOther (Array_sort (cmpInstrument lc) (filter isOther vs))
      = Array_sort (cmpInstrument lc) (filter isOther vs)"
    by (simp only: filter_id_conv)
  show ?thesis using False neq 1 2 by (simp add: getSortedVoices_def Let_def)
qed

text \<open>A locale comparison that orders the names makes the comparator consistent.\<close>

lemma consistent_cmpInstrument:
  assumes "consistent_comparison lc (map instrumentOf vs)"
  shows "consistent_comparator (cmpInstrument lc) vs"
  unfolding consistent_comparator_def
proof (intro conjI ballI impI)
  fix a b assume "a \<in> set vs" "b \<in> set vs"
  then show "cmpInstrument lc a b \<le> 0 \<or> cmpInstrument lc b a \<le> 0"
    using cmpInstrument_total [OF assms, of a b] by simp
next
  fix a b c assume "a \<in> set vs" "b \<in> set vs" "c \<in> set vs"
    and "cmpInstrument lc a b \<le> 0 \<and> cmpInstrument lc b c \<le> 0"
  then show "cmpInstrument lc a c \<le> 0"
    using cmpInstrument_trans [OF assms, of a b c] by simp
qed

text \<open>
  Claim C5, as stated, has the order by note count for every two voices with the same
  instrument name. The comparator of lines 34-42 compares note counts only for
  identical names and leaves names that differ to the locale comparison, which takes
  some different names as equal. With three voices of one instrument, the middle one
  written differently, every neighbouring pair compares as equal, the list stays as it
  is, and the voice with 1 note stands before the voice with 3 notes of the same name.
\<close>

theorem getSortedVoices_instrument_counterexample:
  "getSortedVoices ex_localeCompare (Some [ex_e1, ex_e2, ex_e3]) str_instrument
       = [ex_e1, ex_e2, ex_e3]
   \<and> instrumentOf ex_e1 = instrumentOf ex_e3
   \<and> note_count ex_e1 < note_count ex_e3
   \<and> ex_localeCompare (instrumentOf ex_e1) (instrumentOf ex_e2) = 0
   \<and> instrumentOf ex_e1 \<noteq> instrumentOf ex_e2"
  by code_simp

text \<open>
  Claim C5, amended. With the sort key \<^verbatim>\<open>"instrument"\<close>, and a comparator that is
  consistent on the voices sorted (as it is when the locale comparison is zero on
  identical names only), the voices other than the melody are in the order of the locale
  comparison of their instrument names, and two voices with the same instrument name are
  in descending order of note count. The instrument name is the first parenthesised
  group of the voice's name, and the empty string for a name without a group.
\<close>

theorem getSortedVoices_instrument_order:
  assumes "consistent_comparator (cmpInstrument lc) (filter isOther vs)"
  shows "sorted_wrt (\<lambda>a b. (instrumentOf a \<noteq> instrumentOf b \<longrightarrow>
                              lc (instrumentOf a) (instrumentOf b) \<le> 0)
                       \<and> (instrumentOf a = instrumentOf b \<longrightarrow> note_count b \<le> note_count a))
           (filter isOther (getSortedVoices lc (Some vs) str_instrument))
       \<and> (\<forall>v g. first_group (name v) g \<longrightarrow> instrumentOf v = g)
       \<and> (\<forall>v. \<not> has_group (name v) \<longrightarrow> instrumentOf v = [])"
proof -
  let ?os = "filter isOther vs"
  have total: "cmpInstrument lc a b \<le> 0 \<or> cmpInstrument lc b a \<le> 0"
    if "a \<in> set ?os" "b \<in> set ?os" for a b
    using assms that unfolding consistent_comparator_def by blast
  have trans: "cmpInstrument lc a c \<le> 0"
    if "a \<in> set ?os" "b \<in> set ?os" "c \<in> set ?os"
      "cmpInstrument lc a b \<le> 0" "cmpInstrument lc b c \<le> 0" for a b c
    using assms that unfolding consistent_comparator_def by blast
  have srt: "sorted_wrt (\<lambda>a b. cmpInstrument lc a b \<le> 0) (Array_sort (cmpInstrument lc) ?os)"
    by (rule sorted_wrt_Array_sort [where S = "set ?os"]) (use total trans in blast)+
  have "sorted_wrt (\<lambda>a b. (instrumentOf a \<noteq> instrumentOf b \<longrightarrow>
                              lc (instrumentOf a) (instrumentOf b) \<le> 0)
                       \<and> (instrumentOf a = instrumentOf b \<longrightarrow> note_count b \<le> note_count a))
          (Array_sort (cmpInstrument lc) ?os)"
  proof (rule sorted_wrt_mono_rel [OF _ srt])
    fix a b assume "cmpInstrument lc a b \<le> 0"
    then show "(instrumentOf a \<noteq> instrumentOf b \<longrightarrow> lc (instrumentOf a) (instrumentOf b) \<le> 0)
                 \<and> (instrumentOf a = instrumentOf b \<longrightarrow> note_count b \<le> note_count a)"
      by (auto simp: cmpInstrument_def Let_def split: if_splits)
  qed
  then show ?thesis
    using instrumentOf_first_group instrumentOf_no_group
    by (simp add: filter_isOther_result)
qed

lemma ex_consistent:
  "consistent_comparator (cmpInstrument compareUnits) (filter isOther ex_voices)"
  by code_simp

lemma ex_sorted_by_instrument:
  "filter isOther (getSortedVoices compareUnits (Some ex_voices) str_instrument)
     = [ex_b, ex_c, ex_a]"
  by code_simp

lemma ex_instruments:
  "instrumentOf ex_a = [0x56]" "instrumentOf ex_b = [0x50]" "instrumentOf ex_c = [0x56]"
  by code_simp+

lemma ex_a_match: "match_group (name ex_a) = Some [0x56]"
  by code_simp

theorem getSortedVoices_instrument_order_witness:
  "consistent_comparator (cmpInstrument compareUnits) (filter isOther ex_voices)
   \<and> filter isOther (getSortedVoices compareUnits (Some ex_voices) str_instrument)
       = [ex_b, ex_c, ex_a]
   \<and> instrumentOf ex_b \<noteq> instrumentOf ex_c
   \<and> compareUnits (instrumentOf ex_b) (instrumentOf ex_c) \<le> 0
   \<and> instrumentOf ex_c = instrumentOf ex_a
   \<and> note_count ex_a \<le> note_count ex_c
   \<and> first_group (name ex_a) [0x56]
   \<and> instrumentOf ex_a = [0x56]"
  using getSortedVoices_instrument_order [OF ex_consistent] ex_consistent
    match_group_first [OF ex_a_match]
  by (simp add: ex_sorted_by_instrument ex_instruments)

subsection \<open>A failed conversion\<close>

text \<open>
  Claim C3. When the engine answers with \<^verbatim>\<open>success = false\<close>, the result on display
  is \<^verbatim>\<open>null\<close> while the conversion runs and after it, and the error message is the
  engine's error string, as it is, whenever that string is neither \<^verbatim>\<open>null\<close> nor
  empty.
\<close>

theorem convertFile_failure_shows_error:
  assumes "readFile filePath = Inr bytes"
    and "invoke (convertRequest (convertFile_pending s) bytes) = Inr cr"
    and "\<not> success cr"
  shows "result (convertFile_pending s) = None
       \<and> result (fst (convertFile readFile invoke filePath s)) = None
       \<and> (\<forall>e. error cr = Some e \<and> e \<noteq> [] \<longrightarrow>
             errorMessage (fst (convertFile readFile invoke filePath s)) = e)"
  using assms by (simp add: convertFile_def convertFile_pending_def Let_def)

theorem convertFile_failure_shows_error_witness:
  "ex_readFile ex_path_mid = Inr [0x4D, 0x54, 0x68, 0x64]
   \<and> ex_invoke_fails (convertRequest (convertFile_pending initialState) [0x4D, 0x54, 0x68, 0x64])
        = Inr ex_failure
   \<and> \<not> success ex_failure
   \<and> error ex_failure = Some [0x62, 0x61, 0x64]
   \<and> result (fst (convertFile ex_readFile ex_invoke_fails ex_path_mid initialState)) = None
   \<and> errorMessage (fst (convertFile ex_readFile ex_invoke_fails ex_path_mid initialState))
        = [0x62, 0x61, 0x64]"
proof -
  have 1: "ex_readFile ex_path_mid = Inr [0x4D, 0x54, 0x68, 0x64]"
    by (simp add: ex_readFile_def)
  have 2: "ex_invoke_fails (convertRequest (convertFile_pending initialState) [0x4D, 0x54, 0x68, 0x64])
             = Inr ex_failure"
    by (simp add: ex_invoke_fails_def)
  have 3: "\<not> success ex_failure" by (simp add: ex_failure_def)
  have 4: "error ex_failure = Some [0x62, 0x61, 0x64]" by (simp add: ex_failure_def)
  show ?thesis
    using convertFile_failure_shows_error
            [where readFile = ex_readFile and filePath = ex_path_mid and invoke = ex_invoke_fails
               and s = initialState and cr = ex_failure and bytes = "[0x4D, 0x54, 0x68, 0x64]"]
          1 2 3 4
    by simp
qed

subsection \<open>The options sent to the engine\<close>

lemma convertFile_requests:
  "req \<in> set (snd (convertFile readFile invoke p t)) \<Longrightarrow>
     options req = \<lparr>mode = conversionMode t, char_limit = charLimit t, compress_mode = False\<rparr>"
  by (auto simp: convertFile_def convertFile_pending_def convertRequest_def Let_def
      split: sum.splits if_splits)

text \<open>
  Claim C8. Every request that goes to the engine, from \<open>convertFile\<close> itself or by
  way of \<open>handleFileDrop\<close>, carries an options object of the three fields
  \<^verbatim>\<open>mode\<close>, \<^verbatim>\<open>char_limit\<close> and \<^verbatim>\<open>compress_mode\<close>, filled from the conversion mode
  and the character limit of the state, with \<^verbatim>\<open>compress_mode\<close> false.
\<close>

theorem requests_never_compress:
  "(\<forall>req \<in> set (snd (convertFile readFile invoke filePath s)).
       options req = \<lparr>mode = conversionMode s, char_limit = charLimit s, compress_mode = False\<rparr>
       \<and> compress_mode (options req) = False)
   \<and> (\<forall>req \<in> set (snd (handleFileDrop readFile invoke paths s)).
       options req = \<lparr>mode = conversionMode s, char_limit = charLimit s, compress_mode = False\<rparr>
       \<and> compress_mode (options req) = False)"
proof -
  have "\<And>req. req \<in> set (snd (handleFileDrop readFile invoke paths s)) \<Longrightarrow>
      options req = \<lparr>mode = conversionMode s, char_limit = charLimit s, compress_mode = False\<rparr>"
    by (auto simp: handleFileDrop_def Let_def split: list.splits if_splits
        dest!: convertFile_requests)
  then show ?thesis using convertFile_requests by auto
qed

lemma ex_drop_requests:
  "snd (handleFileDrop ex_readFile ex_invoke_ok [ex_path_mid] initialState)
     = [convertRequest initialState [0x4D, 0x54, 0x68, 0x64]]"
  by (simp add: handleFileDrop_def convertFile_def convertFile_pending_def convertRequest_def
      ex_readFile_def ex_invoke_ok_def ex_result_def ex_path_mid_def endsWith_def toLowerCase_def
      lowerUnit_def str_mid_def str_midi_def Let_def)

theorem requests_never_compress_witness:
  "snd (handleFileDrop ex_readFile ex_invoke_ok [ex_path_mid] initialState)
     = [convertRequest initialState [0x4D, 0x54, 0x68, 0x64]]
   \<and> convertRequest initialState [0x4D, 0x54, 0x68, 0x64]
        \<in> set (snd (handleFileDrop ex_readFile ex_invoke_ok [ex_path_mid] initialState))
   \<and> compress_mode (options (convertRequest initialState [0x4D, 0x54, 0x68, 0x64])) = False
   \<and> options (convertRequest initialState [0x4D, 0x54, 0x68, 0x64])
        = \<lparr>mode = conversionMode initialState, char_limit = charLimit initialState,
           compress_mode = False\<rparr>"
  using requests_never_compress
          [of ex_readFile ex_invoke_ok ex_path_mid initialState "[ex_path_mid]"]
    ex_drop_requests
  by simp

subsection \<open>Dropping a file\<close>




subsection \<open>The copy button\<close>

text \<open>
  Claim C6. Pressing the copy button of a voice shown in the result list puts that
  voice's \<^verbatim>\<open>content\<close>, unchanged, on the system clipboard (when the system grants the
  write), and records the position of the card.
\<close>

theorem clickCopy_writes_content:
  assumes "idx < length (shownVoices lc s)" and "granted"
  shows "snd (clickCopy lc granted idx (s, clip)) = content (shownVoices lc s ! idx)
       \<and> copiedIndex (fst (clickCopy lc granted idx (s, clip))) = int idx"
  using assms by (simp add: clickCopy_def copyToClipboard_def)

lemma ex_shown:
  "shownVoices compareUnits (initialState\<lparr>result := Some ex_result\<rparr>)
     = [ex_melody, ex_c, ex_b, ex_a]"
  by code_simp

theorem clickCopy_writes_content_witness:
  "(2::nat) < length (shownVoices compareUnits (initialState\<lparr>result := Some ex_result\<rparr>))
   \<and> snd (clickCopy compareUnits True 2 (initialState\<lparr>result := Some ex_result\<rparr>, []))
       = [0x74, 0x33]"
proof -
  have len: "(2::nat) < length (shownVoices compareUnits (initialState\<lparr>result := Some ex_result\<rparr>))"
    by (simp add: ex_shown)
  have "content ([ex_melody, ex_c, ex_b, ex_a] ! 2) = [0x74, 0x33]"
    by (simp add: ex_b_def)
  then show ?thesis
    using clickCopy_writes_content [OF len, of True "[]"] len by (simp add: ex_shown)
qed

subsection \<open>The total duration\<close>

lemma digitsOf_nonempty: "digitsOf n \<noteq> []"
  by (subst digitsOf.simps) simp

lemma digitsOf_small: "n < 10 \<Longrightarrow> digitsOf n = [digitChar n]"
  by (subst digitsOf.simps) simp

lemma digitsOf_large: "\<not> n < 10 \<Longrightarrow> digitsOf n = digitsOf (n div 10) @ [digitChar (n mod 10)]"
  by (subst digitsOf.simps) simp

lemma toFixed1_decimal:
  assumes "\<bar>x\<bar> < 10 ^ 21"
  shows "toFixed1 (Finite x) = oneDecimal x"
proof -
  define y where "y = \<bar>x\<bar>"
  define n where "n = \<lfloor>y * 10 + 1 / 2\<rfloor>"
  have y0: "0 \<le> y" and y21: "\<not> 10 ^ 21 \<le> y" using assms by (simp_all add: y_def)
  have n0: "0 \<le> n" using y0 by (simp add: n_def)
  have unf: "toFixed1 (Finite x) =
      (if x < 0 then [0x2D] else []) @
      (let m = digitsOf n;
           m' = (if length m \<le> 1 then replicate (2 - length m) 0x30 @ m else m)
       in take (length m' - 1) m' @ [0x2E] @ drop (length m' - 1) m')"
    using y21 unfolding toFixed1_def n_def y_def by (simp add: Let_def abs_if)
  have body: "(let m = digitsOf n;
           m' = (if length m \<le> 1 then replicate (2 - length m) 0x30 @ m else m)
       in take (length m' - 1) m' @ [0x2E] @ drop (length m' - 1) m')
      = digitsOf (n div 10) @ [0x2E, digitChar (n mod 10)]"
  proof (cases "n < 10")
    case True
    then have "n div 10 = 0" "n mod 10 = n" using n0 by simp_all
    then show ?thesis using True
      by (simp add: digitsOf_small Let_def digitChar_def numeral_2_eq_2)
  next
    case False
    show ?thesis
      using False digitsOf_nonempty [of "n div 10"]
      by (simp add: digitsOf_large [OF False] Let_def)
  qed
  have "oneDecimal x
      = (if x < 0 then [0x2D] else []) @ digitsOf (n div 10) @ [0x2E, digitChar (n mod 10)]"
    unfolding oneDecimal_def nearestTenth_def n_def y_def ..
  then show ?thesis unfolding unf body by simp
qed

lemma toFixed1_nearest:
  "\<bar>of_int \<lfloor>x * 10 + 1 / 2\<rfloor> / 10 - x\<bar> \<le> 1 / (20::rat)"
proof -
  define n where "n = \<lfloor>x * 10 + 1 / 2\<rfloor>"
  have "of_int n \<le> x * 10 + 1 / 2" "x * 10 + 1 / 2 < of_int n + 1"
    unfolding n_def by linarith+
  then have "of_int n / 10 - x \<le> 1 / 20" "x - of_int n / 10 \<le> 1 / 20"
    by linarith+
  then have "\<bar>of_int n / 10 - x\<bar> \<le> 1 / (20::rat)"
    by linarith
  then show ?thesis unfolding n_def .
qed

lemma fold_max_Finite:
  "fold (\<lambda>x highest. case highest of NegInfinity \<Rightarrow> Finite x
                       | Finite h \<Rightarrow> if x > h then Finite x else Finite h) xs (Finite m)
   = Finite (Max (insert m (set xs)))"
proof (induction xs arbitrary: m)
  case Nil
  then show ?case by simp
next
  case (Cons x xs)
  have "Max (insert (max m x) (set xs)) = Max (insert m (insert x (set xs)))"
    by (metis List.finite_set Max_insert Max_singleton finite.insertI insert_not_empty max.assoc max.commute)
  then show ?case using Cons.IH [of x] Cons.IH [of m]
    by (auto simp: max_def not_less split: if_splits)
qed

lemma Math_max_nonempty: "xs \<noteq> [] \<Longrightarrow> Math_max xs = Finite (Max (set xs))"
  by (cases xs) (simp_all add: Math_max_def fold_max_Finite)


text \<open>
  Claim C10, as stated, has one decimal place for every maximum duration. From
  \<open>10^21\<close> on \<^verbatim>\<open>toFixed\<close> prints as \<^verbatim>\<open>toString\<close> does: for a voice of
  \<open>10^21\<close> seconds the result is \<^verbatim>\<open>1e+21\<close> and the unit, without a decimal place.
\<close>

theorem getTotalDuration_counterexample:
  "result (initialState\<lparr>result := Some ex_long_result\<rparr>) = Some ex_long_result
   \<and> voices ex_long_result = [ex_melody\<lparr>duration := 10 ^ 21\<rparr>]
   \<and> getTotalDuration (initialState\<lparr>result := Some ex_long_result\<rparr>)
       = [0x31, 0x65, 0x2B, 0x32, 0x31, 0xCD08]"
  by code_simp

text \<open>
  Claim C10, amended. \<open>getTotalDuration\<close> returns the digit 0 followed by the unit
  when there is no result or the result has no voices. Otherwise, for a maximum duration
  across the voices of magnitude below \<open>10^21\<close>, it returns that maximum with one
  decimal place, which is the number of tenths nearest to it, followed by the unit.
\<close>

theorem getTotalDuration_cases:
  "(result s = None \<longrightarrow> getTotalDuration s = [0x30, 0xCD08])
   \<and> (\<forall>r. result s = Some r \<and> voices r = [] \<longrightarrow> getTotalDuration s = [0x30, 0xCD08])
   \<and> (\<forall>r. result s = Some r \<and> voices r \<noteq> [] \<and> \<bar>maxDuration r\<bar> < 10 ^ 21 \<longrightarrow>
         getTotalDuration s = oneDecimal (maxDuration r) @ [0xCD08]
         \<and> \<bar>of_int (nearestTenth \<bar>maxDuration r\<bar>) / 10 - \<bar>maxDuration r\<bar>\<bar> \<le> 1 / 20)"
proof -
  have dec: "getTotalDuration s = oneDecimal (maxDuration r) @ [0xCD08]"
    if "result s = Some r" "voices r \<noteq> []" "\<bar>maxDuration r\<bar> < 10 ^ 21" for r
    using that toFixed1_decimal [OF that(3)]
    by (simp add: getTotalDuration_def Math_max_nonempty maxDuration_def)
  have near: "\<bar>of_int (nearestTenth x) / 10 - x\<bar> \<le> 1 / 20" for x
    using toFixed1_nearest [of x] by (simp add: nearestTenth_def)
  show ?thesis
    using dec near by (auto simp: getTotalDuration_def)
qed

lemma ex_maxDuration: "maxDuration ex_result = 7 / 2"
  by (simp add: maxDuration_def ex_result_def ex_voices_def ex_a_def ex_b_def ex_c_def
      ex_melody_def)

lemma ex_oneDecimal: "oneDecimal (7 / 2) = [0x33, 0x2E, 0x35]"
  by code_simp

theorem getTotalDuration_cases_witness:
  "result initialState = None \<and> getTotalDuration initialState = [0x30, 0xCD08]
   \<and> result (initialState\<lparr>result := Some ex_result\<rparr>) = Some ex_result
   \<and> voices ex_result \<noteq> [] \<and> \<bar>maxDuration ex_result\<bar> < 10 ^ 21
   \<and> getTotalDuration (initialState\<lparr>result := Some ex_result\<rparr>) = [0x33, 0x2E, 0x35, 0xCD08]"
proof -
  note t0 = getTotalDuration_cases [of initialState]
  note t1 = getTotalDuration_cases [of "initialState\<lparr>result := Some ex_result\<rparr>"]
  have 1: "result initialState = None" by (simp add: initialState_def)
  have 2: "voices ex_result \<noteq> []" by (simp add: ex_result_def ex_voices_def)
  have 4: "\<bar>maxDuration ex_result\<bar> < 10 ^ 21" by (simp add: ex_maxDuration)
  have 5: "result (initialState\<lparr>result := Some ex_result\<rparr>) = Some ex_result" by simp
  have a: "getTotalDuration initialState = [0x30, 0xCD08]" using t0 1 by blast
  have "getTotalDuration (initialState\<lparr>result := Some ex_result\<rparr>)
          = oneDecimal (maxDuration ex_result) @ [0xCD08]"
    using t1 2 4 5 by blast
  then have b: "getTotalDuration (initialState\<lparr>result := Some ex_result\<rparr>)
          = [0x33, 0x2E, 0x35, 0xCD08]"
    by (simp add: ex_maxDuration ex_oneDecimal)
  show ?thesis using 1 2 4 5 a b by simp
qed

subsection \<open>Doubles, their shortest decimals, and reading them back\<close>

lemma less_power_length_digitsOf: "0 \<le> x \<Longrightarrow> x < 10 ^ length (digitsOf x)"
proof (induction x rule: digitsOf.induct)
  case (1 n)
  show ?case
  proof (cases "n < 10")
    case True
    then show ?thesis by (simp add: digitsOf_small)
  next
    case False
    then have "n div 10 < 10 ^ length (digitsOf (n div 10))" using 1 by simp
    then have "n < 10 * 10 ^ length (digitsOf (n div 10))" by linarith
    then show ?thesis using False by (simp add: digitsOf_large)
  qed
qed

lemma length_digitsOf_le: "x < 10 ^ m \<Longrightarrow> 0 < m \<Longrightarrow> length (digitsOf x) \<le> m"
proof (induction x arbitrary: m rule: digitsOf.induct)
  case (1 n)
  show ?case
  proof (cases "n < 10")
    case True
    then show ?thesis using 1 by (simp add: digitsOf_small)
  next
    case False
    obtain m' where m: "m = Suc m'" using 1(3) by (cases m) auto
    have "m' \<noteq> 0" using False 1(2) m by (cases m') auto
    moreover have "n div 10 < 10 ^ m'" using 1(2) m by simp
    ultimately have "length (digitsOf (n div 10)) \<le> m'" using 1(1) [OF False, of m'] by simp
    then show ?thesis using False m by (simp add: digitsOf_large)
  qed
qed

lemma shortestValue_valid:
  "roundToDouble x = x \<Longrightarrow> roundToDouble (shortestValue x j) = x"
  by (induction j) (auto simp: Let_def)

lemma shortestValue_bounds:
  assumes "0 \<le> x" "x < 10 ^ D"
  shows "j < D \<Longrightarrow> 0 \<le> shortestValue x j \<and> shortestValue x j \<le> 10 ^ D"
proof (induction j)
  case 0
  then show ?case using assms by simp
next
  case (Suc j)
  define p :: int where "p = 10 ^ Suc j"
  define c :: int where "c = 10 ^ (D - Suc j)"
  have p: "0 < p" by (simp add: p_def)
  have D: "(10::int) ^ D = c * p"
    unfolding c_def p_def using Suc.prems by (simp only: flip: power_add) simp
  have "0 \<le> x div p" using assms(1) p by (simp add: pos_imp_zdiv_nonneg_iff)
  then have lo0: "0 \<le> (x div p) * p" using p by simp
  have "0 \<le> x mod p" using p by simp
  moreover have "x = (x div p) * p + x mod p" by (rule div_mult_mod_eq [symmetric])
  ultimately have lox: "(x div p) * p \<le> x" by linarith
  have "x < c * p" using assms(2) D by simp
  then have "(x div p) * p < c * p" using lox by linarith
  then have "x div p < c" using p by (simp only: mult_less_cancel_right_pos)
  then have "x div p + 1 \<le> c" by simp
  then have "(x div p + 1) * p \<le> c * p"
    using p by (simp only: mult_le_cancel_right_pos)
  then have hi: "(x div p) * p + p \<le> 10 ^ D" unfolding D by (simp add: algebra_simps)
  have hi0: "0 \<le> (x div p) * p + p" using lo0 p by simp
  have lo: "(x div p) * p \<le> 10 ^ D" using lox assms(2) by linarith
  have IH: "0 \<le> shortestValue x j \<and> shortestValue x j \<le> 10 ^ D" using Suc by simp
  have unf: "shortestValue x (Suc j) =
     (let lo = (x div p) * p;
          hi = lo + p;
          okLo = (roundToDouble lo = x);
          okHi = (roundToDouble hi = x)
      in if okLo \<and> okHi
         then (if x - lo < hi - x then lo
               else if hi - x < x - lo then hi
               else if even (x div p) then lo else hi)
         else if okLo then lo
         else if okHi then hi
         else shortestValue x j)"
    unfolding p_def by (simp only: shortestValue.simps Let_def)
  show ?case
    unfolding unf Let_def using lo0 lo hi0 hi IH by simp
qed

lemma bitLength_pos: "0 < n \<Longrightarrow> bitLength n = Suc (bitLength (n div 2))"
  by (subst bitLength.simps) simp

lemma bitLength_nonpos: "n \<le> 0 \<Longrightarrow> bitLength n = 0"
  by (subst bitLength.simps) simp

lemma bitLength_bounds: "0 < n \<Longrightarrow> 2 ^ (bitLength n - 1) \<le> n \<and> n < 2 ^ bitLength n"
proof (induction n rule: bitLength.induct)
  case (1 n)
  show ?case
  proof (cases "n div 2 = 0")
    case True
    then have "n = 1" using 1(2) by linarith
    then show ?thesis by (simp add: bitLength_pos bitLength_nonpos)
  next
    case False
    then have pos: "0 < n div 2" using 1(2) by linarith
    then have IH: "2 ^ (bitLength (n div 2) - 1) \<le> n div 2" "n div 2 < 2 ^ bitLength (n div 2)"
      using 1 by simp_all
    have bl: "bitLength n = Suc (bitLength (n div 2))" using 1(2) by (rule bitLength_pos)
    have "0 < bitLength (n div 2)" using pos by (simp add: bitLength_pos)
    then obtain k where k: "bitLength (n div 2) = Suc k" by (cases "bitLength (n div 2)") auto
    have "2 * 2 ^ k \<le> n" using IH(1) unfolding k by (simp; linarith)
    moreover have "n < 2 * (2 * 2 ^ k)" using IH(2) unfolding k by (simp; linarith)
    ultimately show ?thesis unfolding bl k by simp
  qed
qed


lemma roundToDouble_ge:
  assumes "2 ^ 53 \<le> v"
  shows "2 ^ 53 \<le> roundToDouble v"
proof -
  define e where "e = bitLength v - 53"
  have v0: "0 < v" using assms by simp
  have b: "2 ^ (bitLength v - 1) \<le> v" "v < 2 ^ bitLength v"
    using bitLength_bounds [OF v0] by simp_all
  have "(2::int) ^ 53 < 2 ^ bitLength v" using assms b(2) by linarith
  then have "53 < bitLength v" by (simp only: power_strict_increasing_iff one_less_numeral_iff semiring_norm)
  then have e1: "1 \<le> e" and bl: "bitLength v - 1 = 52 + e" by (simp_all add: e_def)
  define t :: int where "t = 2 ^ e"
  have t: "0 < t" by (simp add: t_def)
  have t2: "2 \<le> t" using e1 power_increasing [of 1 e "2::int"] by (simp add: t_def)
  have vt: "(2::int) ^ 52 * t \<le> v" using b(1) unfolding bl t_def by (simp only: power_add)
  define q where "q = v div t"
  have m0: "0 \<le> v mod t" and m1: "v mod t < t" using t by simp_all
  have veq: "v = q * t + v mod t" unfolding q_def by (rule div_mult_mod_eq [symmetric])
  have "(q + 1) * t = q * t + t" by (simp add: algebra_simps)
  then have "(2::int) ^ 52 * t < (q + 1) * t" using vt veq m1 by linarith
  then have "(2::int) ^ 52 < v div t + 1"
    using t unfolding q_def by (simp only: mult_less_cancel_right_pos)
  then have q: "(2::int) ^ 52 \<le> v div t" by simp
  then have "(2::int) ^ 52 * t \<le> (v div t) * t" using t by (simp only: mult_le_cancel_right_pos)
  moreover have "(2::int) ^ 53 \<le> 2 ^ 52 * t" using t2 by simp
  ultimately have lo: "(2::int) ^ 53 \<le> (v div t) * t" by linarith
  have hi: "(v div t) * t \<le> (v div t + 1) * t" using t by (simp add: algebra_simps)
  have "roundToDouble v = (v div t + 1) * t \<or> roundToDouble v = (v div t) * t"
    using assms unfolding roundToDouble_def Let_def e_def [symmetric] t_def [symmetric]
    by (simp only: split: if_splits) auto
  then show ?thesis using lo hi by (elim disjE) linarith+
qed

lemma roundToDouble_small_inv:
  "roundToDouble v = x \<Longrightarrow> x < 2 ^ 53 \<Longrightarrow> v = x"
proof (cases "v < 2 ^ 53")
  case True
  assume "roundToDouble v = x"
  then show ?thesis using True by (simp add: roundToDouble_def)
next
  case False
  assume "roundToDouble v = x" "x < 2 ^ 53"
  then show ?thesis using roundToDouble_ge [of v] False by linarith
qed

lemma shortestValue_small: "x < 2 ^ 53 \<Longrightarrow> shortestValue x j = x"
proof (induction j)
  case 0
  then show ?case by simp
next
  case (Suc j)
  then show ?case
    by (auto simp only: shortestValue.simps Let_def split: if_splits
        dest: roundToDouble_small_inv)
qed

lemma digit_cases:
  "0 \<le> (d::int) \<Longrightarrow> d < 10 \<Longrightarrow>
     d = 0 \<or> d = 1 \<or> d = 2 \<or> d = 3 \<or> d = 4 \<or> d = 5 \<or> d = 6 \<or> d = 7 \<or> d = 8 \<or> d = 9"
  by arith

lemma takeWhile_all: "\<forall>x \<in> set xs. P x \<Longrightarrow> takeWhile P xs = xs"
  by simp

lemma digitChar_props:
  assumes "0 \<le> d" "d < 10"
  shows "isDigit (digitChar d)" and "uint (digitChar d) - 48 = d"
    and "\<not> isWhiteSpace (digitChar d)" and "digitChar d \<noteq> 0x2B" and "digitChar d \<noteq> 0x2D"
  using digit_cases [OF assms]
  by (auto simp: digitChar_def isDigit_def isWhiteSpace_def)

lemma digitsOf_all_digits: "0 \<le> n \<Longrightarrow> \<forall>u \<in> set (digitsOf n). isDigit u"
proof (induction n rule: digitsOf.induct)
  case (1 n)
  show ?case
  proof (cases "n < 10")
    case True
    then show ?thesis using 1 by (subst digitsOf.simps) (simp add: digitChar_props)
  next
    case False
    then have "\<forall>u \<in> set (digitsOf (n div 10)). isDigit u" using 1 by simp
    moreover have "isDigit (digitChar (n mod 10))" by (simp add: digitChar_props)
    ultimately show ?thesis using False by (subst digitsOf.simps) simp
  qed
qed

lemma digitsValue_snoc: "digitsValue (ds @ [u]) = 10 * digitsValue ds + (uint u - 48)"
  by (simp add: digitsValue_def)

lemma digitsValue_digitsOf: "0 \<le> n \<Longrightarrow> digitsValue (digitsOf n) = n"
proof (induction n rule: digitsOf.induct)
  case (1 n)
  show ?case
  proof (cases "n < 10")
    case True
    then show ?thesis using 1 by (subst digitsOf.simps) (simp add: digitsValue_def digitChar_props)
  next
    case False
    then have "digitsValue (digitsOf (n div 10)) = n div 10" using 1 by simp
    then show ?thesis using False
      by (subst digitsOf.simps) (simp add: digitsValue_snoc digitChar_props)
  qed
qed

lemma hd_digitsOf: "0 \<le> n \<Longrightarrow> isDigit (hd (digitsOf n))"
  using digitsOf_all_digits [of n] digitsOf_nonempty [of n] by simp

lemma isDigit_not_other:
  "isDigit u \<Longrightarrow> \<not> isWhiteSpace u \<and> u \<noteq> 0x2B \<and> u \<noteq> 0x2D"
  by (auto simp: isDigit_def isWhiteSpace_def)


lemma parseInt10_digits:
  assumes "ds \<noteq> []" "\<forall>u \<in> set ds. isDigit u" "roundToDouble (digitsValue ds) < 2 ^ 1024"
  shows "parseInt10 ds = Integer (roundToDouble (digitsValue ds))"
    and "parseInt10 (0x2D # ds) = Integer (- roundToDouble (digitsValue ds))"
proof -
  obtain d ds' where ds: "ds = d # ds'" using assms(1) by (cases ds) auto
  have d: "isDigit d" using assms(2) ds by simp
  have dw: "dropWhile isWhiteSpace ds = ds" using isDigit_not_other [OF d] ds by simp
  have hd: "hd ds \<noteq> 0x2B" "hd ds \<noteq> 0x2D" using isDigit_not_other [OF d] ds by simp_all
  have big: "\<not> 2 ^ 1024 \<le> roundToDouble (digitsValue ds)" using assms(3) by simp
  show "parseInt10 ds = Integer (roundToDouble (digitsValue ds))"
    using assms(1) dw hd big
    by (simp add: parseInt10_def Let_def takeWhile_all [OF assms(2)] del: power_numeral)
  have "\<not> isWhiteSpace 0x2D" by (simp add: isWhiteSpace_def)
  then show "parseInt10 (0x2D # ds) = Integer (- roundToDouble (digitsValue ds))"
    using assms(1) big
    by (simp add: parseInt10_def Let_def takeWhile_all [OF assms(2)] del: power_numeral)
qed

lemma roundToDouble_10_21: "roundToDouble (10 ^ 21) = 10 ^ 21"
  by code_simp

lemma toString_nonneg_decimal:
  assumes "0 \<le> x" "roundToDouble x = x" "x < 10 ^ 21"
  shows "toString_nonneg x = digitsOf (shortestDecimal x)"
    and "roundToDouble (shortestDecimal x) = x"
    and "0 \<le> shortestDecimal x"
proof -
  let ?D = "length (digitsOf x)"
  have D0: "0 < ?D" using digitsOf_nonempty [of x] by simp
  have xD: "x < 10 ^ ?D" using assms(1) by (rule less_power_length_digitsOf)
  have D21: "?D \<le> 21" using assms(3) by (rule length_digitsOf_le) simp
  have b: "0 \<le> shortestDecimal x" "shortestDecimal x \<le> 10 ^ ?D"
    using shortestValue_bounds [OF assms(1) xD, of "?D - 1"] D0
    by (simp_all add: shortestDecimal_def)
  show v: "roundToDouble (shortestDecimal x) = x"
    unfolding shortestDecimal_def using assms(2) by (rule shortestValue_valid)
  show "0 \<le> shortestDecimal x" by (rule b(1))
  have "(10::int) ^ ?D \<le> 10 ^ 21" using D21 by (rule power_increasing) simp
  then have "shortestDecimal x \<le> 10 ^ 21" using b(2) by linarith
  moreover have "shortestDecimal x \<noteq> 10 ^ 21"
    using v roundToDouble_10_21 assms(3) by auto
  ultimately have "shortestDecimal x < 10 ^ 21" by linarith
  then have "length (digitsOf (shortestDecimal x)) \<le> 21" by (rule length_digitsOf_le) simp
  then show "toString_nonneg x = digitsOf (shortestDecimal x)"
    by (simp add: toString_nonneg_def Let_def)
qed

lemma parseInt10_toString:
  assumes "isDoubleInt i" "\<bar>i\<bar> < 10 ^ 21"
  shows "Number_toString (Integer i)
           = Some ((if i < 0 then [0x2D] else []) @ digitsOf (shortestDecimal \<bar>i\<bar>))"
    and "parseInt10 ((if i < 0 then [0x2D] else []) @ digitsOf (shortestDecimal \<bar>i\<bar>)) = Integer i"
    and "roundToDouble (shortestDecimal \<bar>i\<bar>) = \<bar>i\<bar>"
proof -
  have r: "roundToDouble \<bar>i\<bar> = \<bar>i\<bar>" using assms(1) by (simp add: isDoubleInt_def)
  note ts = toString_nonneg_decimal [OF abs_ge_zero r assms(2)]
  show "roundToDouble (shortestDecimal \<bar>i\<bar>) = \<bar>i\<bar>" by (rule ts(2))
  show "Number_toString (Integer i)
           = Some ((if i < 0 then [0x2D] else []) @ digitsOf (shortestDecimal \<bar>i\<bar>))"
    using ts(1) by (cases "i < 0") (simp_all add: Number_toString_def)
  have dv: "digitsValue (digitsOf (shortestDecimal \<bar>i\<bar>)) = shortestDecimal \<bar>i\<bar>"
    using ts(3) by (rule digitsValue_digitsOf)
  have "(10::int) ^ 21 < 2 ^ 1024" by simp
  then have small: "roundToDouble (digitsValue (digitsOf (shortestDecimal \<bar>i\<bar>))) < 2 ^ 1024"
    unfolding dv ts(2) using assms(2) by linarith
  note pi = parseInt10_digits [OF digitsOf_nonempty digitsOf_all_digits [OF ts(3)] small]
  show "parseInt10 ((if i < 0 then [0x2D] else []) @ digitsOf (shortestDecimal \<bar>i\<bar>)) = Integer i"
    using pi unfolding dv ts(2) by (cases "i < 0") simp_all
qed

lemma ex_toString_2_60:
  "Number_toString (Integer (2 ^ 60))
     = Some [0x31, 0x31, 0x35, 0x32, 0x39, 0x32, 0x31, 0x35, 0x30, 0x34, 0x36, 0x30, 0x36, 0x38,
             0x34, 0x37, 0x30, 0x30, 0x30]"
  by code_simp

lemma ex_toString_2_70:
  "Number_toString (Integer (2 ^ 70))
     = Some [0x31, 0x2E, 0x31, 0x38, 0x30, 0x35, 0x39, 0x31, 0x36, 0x32, 0x30, 0x37, 0x31, 0x37,
             0x34, 0x31, 0x31, 0x33, 0x65, 0x2B, 0x32, 0x31]"
  by code_simp

lemma ex_parseInt_2_53_plus_1:
  "parseInt10 [0x39, 0x30, 0x30, 0x37, 0x31, 0x39, 0x39, 0x32, 0x35, 0x34, 0x37, 0x34, 0x30, 0x39,
               0x39, 0x33] = Integer 9007199254740992"
  by code_simp

subsection \<open>Settings persistence\<close>

lemma keys_distinct:
  "key_conversionMode \<noteq> key_charLimit" "key_conversionMode \<noteq> key_sortBy" "key_charLimit \<noteq> key_sortBy"
  by (simp_all add: key_conversionMode_def key_charLimit_def key_sortBy_def)

text \<open>
  Claim C4, as stated, has the round trip for every integer limit and for every mode
  and sort string. It fails at the integer \<open>10^21\<close>, which \<^verbatim>\<open>toString\<close> prints in
  exponent notation (\<^verbatim>\<open>1e+21\<close>) and \<^verbatim>\<open>parseInt\<close> reads back as 1; and the load
  effect skips an empty saved string, so an empty mode is not restored: the mode stays
  \<^verbatim>\<open>"normal"\<close>.
\<close>

theorem settings_roundtrip_counterexample:
  "isDoubleInt (10 ^ 21)
   \<and> Number_toString (Integer (10 ^ 21)) = Some [0x31, 0x65, 0x2B, 0x32, 0x31]
   \<and> parseInt10 [0x31, 0x65, 0x2B, 0x32, 0x31] = Integer 1
   \<and> charLimit (loadSettings True
                  (saveSettings True (initialState\<lparr>charLimit := Integer (10 ^ 21)\<rparr>) Map.empty)
                  initialState)
       = Integer 1
   \<and> conversionMode (loadSettings True
                       (saveSettings True (initialState\<lparr>conversionMode := []\<rparr>) Map.empty)
                       initialState)
       = [0x6E, 0x6F, 0x72, 0x6D, 0x61, 0x6C]"
  by code_simp

text \<open>
  Claim C4, amended. The save effect writes the conversion mode, the character limit as
  a decimal string and the sort key under the keys \<^verbatim>\<open>'conversionMode'\<close>,
  \<^verbatim>\<open>'charLimit'\<close> and \<^verbatim>\<open>'sortBy'\<close>. For every integer limit of magnitude below
  \<open>10^21\<close> (an integer that is a Number), the string written is a decimal numeral that
  rounds to the limit, the limit's own digits below \<open>2^53\<close>; \<^verbatim>\<open>parseInt\<close> in base
  10 reads it back as the same integer, and the load effect, on what the save effect
  wrote, restores the limit. The load effect restores the mode and the sort key, code unit
  by code unit, when they are not empty.
\<close>

theorem settings_roundtrip:
  assumes "conversionMode s \<noteq> []" and "sortBy s \<noteq> []"
    and "charLimit s = Integer i" and "isDoubleInt i" and "\<bar>i\<bar> < 10 ^ 21"
  shows "saveSettings True s ls key_conversionMode = Some (conversionMode s)
       \<and> saveSettings True s ls key_charLimit = Number_toString (Integer i)
       \<and> Number_toString (Integer i)
           = Some ((if i < 0 then [0x2D] else []) @ digitsOf (shortestDecimal \<bar>i\<bar>))
       \<and> roundToDouble (shortestDecimal \<bar>i\<bar>) = \<bar>i\<bar>
       \<and> (\<bar>i\<bar> < 2 ^ 53 \<longrightarrow> shortestDecimal \<bar>i\<bar> = \<bar>i\<bar>)
       \<and> saveSettings True s ls key_sortBy = Some (sortBy s)
       \<and> parseInt10 ((if i < 0 then [0x2D] else []) @ digitsOf (shortestDecimal \<bar>i\<bar>)) = Integer i
       \<and> conversionMode (loadSettings True (saveSettings True s ls) s0) = conversionMode s
       \<and> charLimit (loadSettings True (saveSettings True s ls) s0) = charLimit s
       \<and> sortBy (loadSettings True (saveSettings True s ls) s0) = sortBy s"
proof -
  let ?str = "(if i < 0 then [0x2D] else []) @ digitsOf (shortestDecimal \<bar>i\<bar>)"
  note rt = parseInt10_toString [OF assms(4,5)]
  have ne: "?str \<noteq> []" using digitsOf_nonempty by simp
  have sv: "saveSettings True s ls key_conversionMode = Some (conversionMode s)"
    "saveSettings True s ls key_charLimit = Some ?str"
    "saveSettings True s ls key_sortBy = Some (sortBy s)"
    using keys_distinct assms(3) rt(1) by (simp_all add: saveSettings_def Let_def)
  have ld: "conversionMode (loadSettings True (saveSettings True s ls) s0) = conversionMode s"
    "charLimit (loadSettings True (saveSettings True s ls) s0) = charLimit s"
    "sortBy (loadSettings True (saveSettings True s ls) s0) = sortBy s"
    using assms(1,2,3) ne rt(2) by (simp_all add: loadSettings_def sv Let_def)
  have small: "\<bar>i\<bar> < 2 ^ 53 \<longrightarrow> shortestDecimal \<bar>i\<bar> = \<bar>i\<bar>"
    by (simp add: shortestDecimal_def shortestValue_small del: power_numeral)
  show ?thesis using sv ld rt small by (simp del: power_numeral)
qed

theorem settings_roundtrip_witness:
  "conversionMode initialState \<noteq> [] \<and> sortBy initialState \<noteq> []
   \<and> charLimit initialState = Integer 1200 \<and> isDoubleInt 1200 \<and> \<bar>1200::int\<bar> < 10 ^ 21
   \<and> \<bar>1200::int\<bar> < 2 ^ 53
   \<and> saveSettings True initialState Map.empty key_charLimit = Some [0x31, 0x32, 0x30, 0x30]
   \<and> parseInt10 [0x31, 0x32, 0x30, 0x30] = Integer 1200
   \<and> charLimit (loadSettings True (saveSettings True initialState Map.empty)
                  (initialState\<lparr>charLimit := Integer 500, conversionMode := str_instrument,
                                sortBy := str_instrument\<rparr>))
       = Integer 1200
   \<and> conversionMode (loadSettings True (saveSettings True initialState Map.empty)
                       (initialState\<lparr>charLimit := Integer 500, conversionMode := str_instrument,
                                     sortBy := str_instrument\<rparr>))
       = [0x6E, 0x6F, 0x72, 0x6D, 0x61, 0x6C]
   \<and> sortBy (loadSettings True (saveSettings True initialState Map.empty)
               (initialState\<lparr>charLimit := Integer 500, conversionMode := str_instrument,
                             sortBy := str_instrument\<rparr>))
       = str_notes"
proof -
  have 1: "conversionMode initialState \<noteq> []" "sortBy initialState \<noteq> []"
    by (simp_all add: initialState_def str_notes_def)
  have 2: "charLimit initialState = Integer 1200" by (simp add: initialState_def)
  have 3: "isDoubleInt 1200" by (simp add: isDoubleInt_def roundToDouble_def)
  have 4: "\<bar>1200::int\<bar> < 10 ^ 21" "\<bar>1200::int\<bar> < 2 ^ 53" by simp_all
  have 5: "conversionMode initialState = [0x6E, 0x6F, 0x72, 0x6D, 0x61, 0x6C]"
    "sortBy initialState = str_notes"
    by (simp_all add: initialState_def)
  have 6: "digitsOf 1200 = [0x31, 0x32, 0x30, 0x30]" by code_simp
  note t = settings_roundtrip [OF 1 2 3 4(1), of Map.empty
            "initialState\<lparr>charLimit := Integer 500, conversionMode := str_instrument,
                          sortBy := str_instrument\<rparr>"]
  have sd: "shortestDecimal 1200 = 1200" using t 4(2) by simp
  have "saveSettings True initialState Map.empty key_charLimit
          = Some (digitsOf (shortestDecimal 1200))"
    using t by (elim conjE) simp
  then have a: "saveSettings True initialState Map.empty key_charLimit
          = Some [0x31, 0x32, 0x30, 0x30]"
    unfolding sd 6 .
  have "parseInt10 (digitsOf (shortestDecimal 1200)) = Integer 1200"
    using t by (elim conjE) simp
  then have b: "parseInt10 [0x31, 0x32, 0x30, 0x30] = Integer 1200"
    unfolding sd 6 .
  show ?thesis using t 1 2 3 4 5 a b by simp
qed

end
